theory Spec2Isabelle
  imports Complex_Main
begin

section \<open>Regular-expression search for the two log patterns\<close>

text \<open>
  The handler of \<^verbatim>\<open>train_agent.py\<close> recognises log lines with \<^verbatim>\<open>re.search\<close> and two
  patterns that are built from literal text and the capturing group \<^verbatim>\<open>([^ ]*)\<close> only:
  \<^verbatim>\<open>
  r'The best score is updated ([^ ]*) -> ([^ ]*)'
  r'evaluation episode ([^ ]*) length:([^ ]*) R:([^ ]*) IoU:([^ ]*) Max_IoU:([^ ]*)'
  \<close>
  A pattern of that shape is a list of items. \<open>Group\<close> is \<^verbatim>\<open>([^ ]*)\<close>: a greedy, possibly
  empty run of characters other than the space character (a newline is such a character).
  A message is a \<open>string\<close>, a list of 8-bit characters; the patterns are ASCII.
\<close>

datatype re_item = Lit string | Group

text \<open>
  \<open>match_here p s\<close> matches the pattern at the very start of \<open>s\<close> and returns the captured
  groups. A group first takes the longest run of non-space characters and gives characters
  back one at a time while the rest of the pattern fails (\<open>backtrack\<close>), as the backtracking
  matcher of \<^verbatim>\<open>re\<close> does.
\<close>

function match_here :: "re_item list \<Rightarrow> string \<Rightarrow> string list option"
  and backtrack :: "re_item list \<Rightarrow> string \<Rightarrow> nat \<Rightarrow> string list option" where
  "match_here [] s = Some []"
| "match_here (Lit l # p) s =
     (if take (length l) s = l then match_here p (drop (length l) s) else None)"
| "match_here (Group # p) s = backtrack p s (length (takeWhile (\<lambda>c. c \<noteq> CHR '' '') s))"
| "backtrack p s k =
     (case match_here p (drop k s) of
        Some gs \<Rightarrow> Some (take k s # gs)
      | None \<Rightarrow> (case k of 0 \<Rightarrow> None | Suc j \<Rightarrow> backtrack p s j))"
  by pat_completeness auto
termination
  by (relation "measures
        [\<lambda>x. case x of Inl (p, s) \<Rightarrow> length p | Inr (p, s, k) \<Rightarrow> length p,
         \<lambda>x. case x of Inl (p, s) \<Rightarrow> 0 | Inr (p, s, k) \<Rightarrow> Suc k]") auto

text \<open>\<^verbatim>\<open>re.search\<close>: the match at the leftmost start position that has one.\<close>

fun re_search :: "re_item list \<Rightarrow> string \<Rightarrow> string list option" where
  "re_search p [] = match_here p []"
| "re_search p (c # cs) =
     (case match_here p (c # cs) of Some gs \<Rightarrow> Some gs | None \<Rightarrow> re_search p cs)"

definition best_pattern :: "re_item list" where
  "best_pattern = [Lit ''The best score is updated '', Group, Lit '' -> '', Group]"

definition reward_pattern :: "re_item list" where
  "reward_pattern =
     [Lit ''evaluation episode '', Group, Lit '' length:'', Group, Lit '' R:'', Group,
      Lit '' IoU:'', Group, Lit '' Max_IoU:'', Group]"

text \<open>\<^verbatim>\<open>match.group(k)\<close>, for \<open>k\<close> from 1.\<close>

definition group :: "string list \<Rightarrow> nat \<Rightarrow> string" where
  "group gs k = gs ! (k - 1)"


section \<open>Python values and built-in conversions\<close>

datatype py_error = ValueError | IndexError

text \<open>
  The built-ins \<^verbatim>\<open>int(s)\<close> and \<^verbatim>\<open>float(s)\<close> on a string either return a number or raise
  \<^verbatim>\<open>ValueError\<close> (\<open>None\<close>). The handler is modelled for any such pair of conversions; floats
  are taken as reals, so rounding to binary64, infinities and NaN are not modelled.
  \<open>py_int\<close> and \<open>py_float\<close> below are the two conversions on plain signed decimal literals
  (digits with an optional sign and, for \<open>py_float\<close>, an optional decimal point), which is
  what \<^verbatim>\<open>%s\<close> formatting of the evaluation loop's integers and ordinary floats produces;
  they are used where a concrete log line is evaluated. They are narrower than the
  built-ins: Python also accepts surrounding whitespace and underscores between digits,
  and \<^verbatim>\<open>float\<close> accepts exponents (\<^verbatim>\<open>1e-05\<close>), \<^verbatim>\<open>inf\<close> and \<^verbatim>\<open>nan\<close>, where these two give
  \<open>None\<close>. No statement below applies them to such a string; the statements about every
  message are made for arbitrary conversions \<open>int_of\<close> and \<open>float_of\<close>.
\<close>

definition digit_of :: "char \<Rightarrow> nat option" where
  "digit_of c =
     (let code = (of_char c :: nat)
      in if 48 \<le> code \<and> code \<le> 57 then Some (code - 48) else None)"

fun digits_value :: "nat \<Rightarrow> string \<Rightarrow> nat option" where
  "digits_value acc [] = Some acc"
| "digits_value acc (c # cs) =
     (case digit_of c of None \<Rightarrow> None | Some d \<Rightarrow> digits_value (10 * acc + d) cs)"

definition unsigned_int :: "string \<Rightarrow> nat option" where
  "unsigned_int s = (if s = [] then None else digits_value 0 s)"

definition unsigned_float :: "string \<Rightarrow> real option" where
  "unsigned_float s =
     (let whole = takeWhile (\<lambda>c. c \<noteq> CHR ''.'') s;
          rest = dropWhile (\<lambda>c. c \<noteq> CHR ''.'') s;
          frac = drop 1 rest
      in if whole = [] \<and> frac = [] then None
         else (case digits_value 0 whole of
                 None \<Rightarrow> None
               | Some w \<Rightarrow>
                   (case digits_value 0 frac of
                      None \<Rightarrow> None
                    | Some f \<Rightarrow> Some (real w + real f / 10 ^ length frac))))"

fun py_int :: "string \<Rightarrow> int option" where
  "py_int [] = None"
| "py_int (c # cs) =
     (if c = CHR ''-'' then map_option (\<lambda>n. - int n) (unsigned_int cs)
      else if c = CHR ''+'' then map_option int (unsigned_int cs)
      else map_option int (unsigned_int (c # cs)))"

fun py_float :: "string \<Rightarrow> real option" where
  "py_float [] = None"
| "py_float (c # cs) =
     (if c = CHR ''-'' then map_option uminus (unsigned_float cs)
      else if c = CHR ''+'' then unsigned_float cs
      else unsigned_float (c # cs))"

section \<open>The statistics of the aggregate burst\<close>

text \<open>
  \<^verbatim>\<open>np.mean\<close>, \<^verbatim>\<open>np.median\<close> and \<^verbatim>\<open>np.var\<close> (the population variance) of a one-dimensional
  array, over the reals. On an empty array numpy returns NaN; the handler never takes a
  statistic of an empty buffer, because a store into an empty buffer raises first.
\<close>

definition np_mean :: "real list \<Rightarrow> real" where
  "np_mean xs = sum_list xs / real (length xs)"

definition np_median :: "real list \<Rightarrow> real" where
  "np_median xs =
     (let ys = sort xs; n = length ys
      in if n mod 2 = 1 then ys ! (n div 2)
         else (ys ! (n div 2 - 1) + ys ! (n div 2)) / 2)"

definition np_var :: "real list \<Rightarrow> real" where
  "np_var xs = np_mean (map (\<lambda>x. (x - np_mean xs)\<^sup>2) xs)"

text \<open>
  \<^verbatim>\<open>np.empty(n)\<close>: a fresh array of \<open>n\<close> cells whose contents are whatever the memory held
  (\<open>junk\<close>), or \<^verbatim>\<open>ValueError\<close> for a negative size.
\<close>

definition np_empty :: "(nat \<Rightarrow> real) \<Rightarrow> int \<Rightarrow> py_error + real list" where
  "np_empty junk n = (if n < 0 then Inl ValueError else Inr (map junk [0..<nat n]))"

text \<open>
  \<^verbatim>\<open>a[i] = v\<close> on an array: a negative index counts from the end, an index outside
  \<open>-len(a) .. len(a) - 1\<close> raises \<^verbatim>\<open>IndexError\<close>.
\<close>

definition setitem :: "real list \<Rightarrow> int \<Rightarrow> real \<Rightarrow> py_error + real list" where
  "setitem a i v =
     (let n = int (length a); j = (if i < 0 then i + n else i)
      in if 0 \<le> j \<and> j < n then Inr (a[nat j := v]) else Inl IndexError)"

section \<open>TensorBoardEvaluationLoggingHandler\<close>

text \<open>
  The value handed to \<^verbatim>\<open>add_scalar\<close> is a Python object: a string or a number.
\<close>

datatype scalar_value = Str string | Num real

type_synonym scalar = "string \<times> scalar_value \<times> int"

text \<open>
  The handler object. \<open>summary_writer\<close> is the list of \<^verbatim>\<open>add_scalar(name, value, step)\<close>
  calls the writer has received, oldest first. The agent is a separate object that training
  mutates; its step count \<^verbatim>\<open>self.agent.t\<close> at the time of a call is the argument \<open>agent_t\<close>
  of \<open>emit\<close>.
\<close>

record handler =
  summary_writer :: "scalar list"
  eval_run_count :: int
  episode_rewards :: "real list"
  episode_lengths :: "real list"
  episode_ious :: "real list"
  episode_max_ious :: "real list"

text \<open>\<^verbatim>\<open>__init__\<close>: four fresh arrays of \<open>eval_run_count\<close> cells.\<close>

definition init_handler :: "(nat \<Rightarrow> nat \<Rightarrow> real) \<Rightarrow> int \<Rightarrow> py_error + handler" where
  "init_handler junk n =
     (case np_empty (junk 0) n of Inl e \<Rightarrow> Inl e | Inr rewards \<Rightarrow>
      case np_empty (junk 1) n of Inl e \<Rightarrow> Inl e | Inr lengths \<Rightarrow>
      case np_empty (junk 2) n of Inl e \<Rightarrow> Inl e | Inr ious \<Rightarrow>
      case np_empty (junk 3) n of Inl e \<Rightarrow> Inl e | Inr max_ious \<Rightarrow>
        Inr \<lparr>summary_writer = [], eval_run_count = n, episode_rewards = rewards,
             episode_lengths = lengths, episode_ious = ious, episode_max_ious = max_ious\<rparr>)"

definition add_scalar :: "string \<Rightarrow> scalar_value \<Rightarrow> int \<Rightarrow> handler \<Rightarrow> handler" where
  "add_scalar name v step h = h\<lparr>summary_writer := summary_writer h @ [(name, v, step)]\<rparr>"

text \<open>Lines 156 to 163: the step count is read once, then seven scalars are written.\<close>

definition aggregate_scalars :: "int \<Rightarrow> handler \<Rightarrow> scalar list" where
  "aggregate_scalars step_count h =
     [(''evaluation_length_mean'', Num (np_mean (episode_lengths h)), step_count),
      (''evaluation_reward_mean'', Num (np_mean (episode_rewards h)), step_count),
      (''evaluation_reward_median'', Num (np_median (episode_rewards h)), step_count),
      (''evaluation_reward_variance'', Num (np_var (episode_rewards h)), step_count),
      (''evaluation_iou_mean'', Num (np_mean (episode_ious h)), step_count),
      (''evaluation_iou_median'', Num (np_median (episode_ious h)), step_count),
      (''evaluation_max_iou_mean'', Num (np_mean (episode_max_ious h)), step_count)]"

definition flush :: "int \<Rightarrow> handler \<Rightarrow> handler" where
  "flush agent_t h =
     (let step_count = agent_t
      in foldl (\<lambda>h' (name, v, step). add_scalar name v step h') h
           (aggregate_scalars step_count h))"

text \<open>
  Lines 150 to 163: the four stores, in the source's order, then the flush when the episode
  number is \<open>eval_run_count - 1\<close>. A store that raises leaves the earlier stores done.
\<close>

definition store_episode ::
  "int \<Rightarrow> handler \<Rightarrow> int \<Rightarrow> int \<Rightarrow> real \<Rightarrow> real \<Rightarrow> real \<Rightarrow> py_error option \<times> handler" where
  "store_episode agent_t h episode_number episode_length episode_reward episode_iou
       episode_max_iou =
     (case setitem (episode_lengths h) episode_number (real_of_int episode_length) of
        Inl e \<Rightarrow> (Some e, h)
      | Inr lengths \<Rightarrow>
     (let h1 = h\<lparr>episode_lengths := lengths\<rparr> in
      case setitem (episode_rewards h1) episode_number episode_reward of
        Inl e \<Rightarrow> (Some e, h1)
      | Inr rewards \<Rightarrow>
     (let h2 = h1\<lparr>episode_rewards := rewards\<rparr> in
      case setitem (episode_ious h2) episode_number episode_iou of
        Inl e \<Rightarrow> (Some e, h2)
      | Inr ious \<Rightarrow>
     (let h3 = h2\<lparr>episode_ious := ious\<rparr> in
      case setitem (episode_max_ious h3) episode_number episode_max_iou of
        Inl e \<Rightarrow> (Some e, h3)
      | Inr max_ious \<Rightarrow>
     (let h4 = h3\<lparr>episode_max_ious := max_ious\<rparr> in
      if episode_number = eval_run_count h4 - 1 then (None, flush agent_t h4)
      else (None, h4))))))"

text \<open>
  Lines 142 to 148: the search for the episode pattern and the five conversions, in the
  source's order. \<open>None\<close> when the pattern is not found; otherwise the five values, or the
  \<^verbatim>\<open>ValueError\<close> of the first conversion that fails. \<open>int_of\<close> and \<open>float_of\<close> are the
  built-in conversions.
\<close>

definition parse_episode ::
  "(string \<Rightarrow> int option) \<Rightarrow> (string \<Rightarrow> real option) \<Rightarrow> string
     \<Rightarrow> (py_error + int \<times> int \<times> real \<times> real \<times> real) option" where
  "parse_episode int_of float_of msg =
     (case re_search reward_pattern msg of
        None \<Rightarrow> None
      | Some gs \<Rightarrow> Some
         (case int_of (group gs 1) of None \<Rightarrow> Inl ValueError | Some episode_number \<Rightarrow>
          case int_of (group gs 2) of None \<Rightarrow> Inl ValueError | Some episode_length \<Rightarrow>
          case float_of (group gs 3) of None \<Rightarrow> Inl ValueError | Some episode_reward \<Rightarrow>
          case float_of (group gs 4) of None \<Rightarrow> Inl ValueError | Some episode_iou \<Rightarrow>
          case float_of (group gs 5) of None \<Rightarrow> Inl ValueError | Some episode_max_iou \<Rightarrow>
            Inr (episode_number, episode_length, episode_reward, episode_iou,
                 episode_max_iou)))"

text \<open>
  \<open>emit\<close>, lines 135 to 164. The result is the exception that left the method, if any, and
  the handler as the call left it.
\<close>

definition emit ::
  "(string \<Rightarrow> int option) \<Rightarrow> (string \<Rightarrow> real option) \<Rightarrow> int \<Rightarrow> handler \<Rightarrow> string
     \<Rightarrow> py_error option \<times> handler" where
  "emit int_of float_of agent_t h msg =
     (let h1 = (case re_search best_pattern msg of
                  None \<Rightarrow> h
                | Some gs \<Rightarrow>
                    (let new_best_score = group gs 2; step_count = agent_t
                     in add_scalar ''evaluation_new_best_score'' (Str new_best_score)
                          step_count h))
      in case parse_episode int_of float_of msg of
           None \<Rightarrow> (None, h1)
         | Some (Inl e) \<Rightarrow> (Some e, h1)
         | Some (Inr (episode_number, episode_length, episode_reward, episode_iou,
                      episode_max_iou)) \<Rightarrow>
             store_episode agent_t h1 episode_number episode_length episode_reward
               episode_iou episode_max_iou)"

text \<open>
  The logger hands each record to \<open>emit\<close> in the order the lines are logged; an exception
  leaves the logging call and ends the run.
\<close>

fun emit_all ::
  "(string \<Rightarrow> int option) \<Rightarrow> (string \<Rightarrow> real option) \<Rightarrow> int \<Rightarrow> handler \<Rightarrow> string list
     \<Rightarrow> py_error option \<times> handler" where
  "emit_all int_of float_of agent_t h [] = (None, h)"
| "emit_all int_of float_of agent_t h (msg # msgs) =
     (case emit int_of float_of agent_t h msg of
        (Some e, h') \<Rightarrow> (Some e, h')
      | (None, h') \<Rightarrow> emit_all int_of float_of agent_t h' msgs)"

text \<open>
  \<open>main\<close>, lines 70 to 82: with \<^verbatim>\<open>CONFIG['use_tensorboard']\<close> set, the handler is built with
  the local \<^verbatim>\<open>eval_run_count = 10\<close>; the number of episodes of an evaluation round is
  \<^verbatim>\<open>CONFIG['eval_n_episodes']\<close>, which line 99 passes to the training loop only.
\<close>

record config =
  use_tensorboard :: bool
  eval_n_episodes :: int

definition main_handler :: "config \<Rightarrow> (nat \<Rightarrow> nat \<Rightarrow> real) \<Rightarrow> (py_error + handler) option" where
  "main_handler CONFIG junk =
     (let eval_run_count = 10
      in if use_tensorboard CONFIG then Some (init_handler junk eval_run_count) else None)"


section \<open>run\_localization\_evaluation\_episodes\<close>

text \<open>
  The numbers the evaluation loop handles: Python's \<^verbatim>\<open>int\<close> and \<^verbatim>\<open>float\<close>, and numpy's boxed
  float, which the source's comment on line 195 names. Floats are taken as reals.
\<close>

datatype num = PyInt int | PyFloat real | NpFloat real

fun value_of :: "num \<Rightarrow> real" where
  "value_of (PyInt n) = real_of_int n"
| "value_of (PyFloat x) = x"
| "value_of (NpFloat x) = x"

text \<open>\<^verbatim>\<open>x + y\<close>: two ints give an int, a numpy float on either side gives a numpy float.\<close>

fun py_add :: "num \<Rightarrow> num \<Rightarrow> num" where
  "py_add (PyInt a) (PyInt b) = PyInt (a + b)"
| "py_add (PyInt a) (PyFloat b) = PyFloat (real_of_int a + b)"
| "py_add (PyFloat a) (PyInt b) = PyFloat (a + real_of_int b)"
| "py_add (PyFloat a) (PyFloat b) = PyFloat (a + b)"
| "py_add (NpFloat a) y = NpFloat (a + value_of y)"
| "py_add x (NpFloat b) = NpFloat (value_of x + b)"

text \<open>\<^verbatim>\<open>float(x)\<close> on a number.\<close>

definition float_of_num :: "num \<Rightarrow> num" where
  "float_of_num x = PyFloat (value_of x)"

fun is_plain_float :: "num \<Rightarrow> bool" where
  "is_plain_float (PyFloat x) = True"
| "is_plain_float (PyInt n) = False"
| "is_plain_float (NpFloat x) = False"

text \<open>
  The environment and the agent are objects of other packages. \<open>'w\<close> is the state of both
  objects together, \<open>'o\<close> the observations, \<open>'a\<close> the actions; each method is a function of
  that state and returns what the method returns together with the new state
  (\<^verbatim>\<open>env.step\<close> without its fourth component \<^verbatim>\<open>info\<close>, which the function never reads).
  The methods are taken to return: an exception of theirs would leave the function at once.
\<close>

record ('w, 'o, 'a) collaborators =
  env_reset :: "'w \<Rightarrow> 'o \<times> 'w"
  env_step :: "'a \<Rightarrow> 'w \<Rightarrow> ('o \<times> num \<times> bool) \<times> 'w"
  env_iou :: "'w \<Rightarrow> num"
  env_max_iou :: "'w \<Rightarrow> num"
  agent_act :: "'o \<Rightarrow> 'w \<Rightarrow> 'a \<times> 'w"
  agent_stop_episode :: "'w \<Rightarrow> 'w"

text \<open>
  What the function does to the outside, in order: the calls on the environment and the
  agent (\<open>Step r done\<close> with the reward and the flag that \<^verbatim>\<open>env.step\<close> returned), and
  \<open>Info i t test_r iou max_iou\<close> for
  \<^verbatim>\<open>logger.info('evaluation episode %s length:%s R:%s IoU:%s Max_IoU:%s', i, t, test_r, iou, max_iou)\<close>.
\<close>

datatype event = Reset | Act | Step num bool | StopEpisode | Info int int num num num

text \<open>
  Lines 189 to 193, the loop \<^verbatim>\<open>while not (done or t == max_episode_len)\<close> over the local
  variables. It need not end, so the result is \<open>None\<close> when it runs forever.
\<close>

partial_function (option) step_loop ::
  "('w, 'o, 'a) collaborators \<Rightarrow> int option \<Rightarrow> 'w \<Rightarrow> event list \<Rightarrow> 'o \<Rightarrow> bool \<Rightarrow> num \<Rightarrow> int
     \<Rightarrow> ('w \<times> event list \<times> 'o \<times> bool \<times> num \<times> int) option" where
  "step_loop c max_episode_len w ev obs done test_r t =
     (if \<not> (done \<or> Some t = max_episode_len) then
        (case agent_act c obs w of (a, w1) \<Rightarrow>
         case env_step c a w1 of ((obs', r, done'), w2) \<Rightarrow>
           step_loop c max_episode_len w2 (ev @ [Act, Step r done']) obs' done'
             (py_add test_r r) (t + 1))
      else Some (w, ev, obs, done, test_r, t))"

declare step_loop.simps [code]


text \<open>
  Lines 185 to 200, the body of the \<^verbatim>\<open>for\<close> loop for episode \<open>i\<close>: the score to append, the
  new state and the events so far.
\<close>

definition run_episode ::
  "('w, 'o, 'a) collaborators \<Rightarrow> int option \<Rightarrow> int \<Rightarrow> 'w \<Rightarrow> event list
     \<Rightarrow> (num \<times> 'w \<times> event list) option" where
  "run_episode c max_episode_len i w ev =
     (case env_reset c w of (obs, w0) \<Rightarrow>
      case step_loop c max_episode_len w0 (ev @ [Reset]) obs False (PyInt 0) 0 of
        None \<Rightarrow> None
      | Some (w1, ev1, obs1, done, test_r, t) \<Rightarrow>
          (let w2 = agent_stop_episode c w1;
               iou = (if done then float_of_num (env_iou c w2) else float_of_num (PyInt 0));
               max_iou = float_of_num (env_max_iou c w2)
           in Some (float_of_num test_r, w2,
                    ev1 @ [StopEpisode, Info i t test_r iou max_iou])))"

text \<open>\<^verbatim>\<open>range(n)\<close>: empty for \<open>n \<le> 0\<close>.\<close>

definition py_range :: "int \<Rightarrow> int list" where
  "py_range n = map int [0..<nat n]"

fun episodes ::
  "('w, 'o, 'a) collaborators \<Rightarrow> int option \<Rightarrow> int list \<Rightarrow> num list \<Rightarrow> 'w \<Rightarrow> event list
     \<Rightarrow> (num list \<times> 'w \<times> event list) option" where
  "episodes c max_episode_len [] scores w ev = Some (scores, w, ev)"
| "episodes c max_episode_len (i # is) scores w ev =
     (case run_episode c max_episode_len i w ev of
        None \<Rightarrow> None
      | Some (score, w', ev') \<Rightarrow> episodes c max_episode_len is (scores @ [score]) w' ev')"

text \<open>
  The function: the returned \<open>scores\<close>, with the final state and all events. \<open>None\<close> is a
  run that never returns. The parameter \<open>n_steps\<close> is not used by the source.
\<close>

definition run_localization_evaluation_episodes ::
  "('w, 'o, 'a) collaborators \<Rightarrow> 'w \<Rightarrow> int option \<Rightarrow> int \<Rightarrow> int option
     \<Rightarrow> (num list \<times> 'w \<times> event list) option" where
  "run_localization_evaluation_episodes c w n_steps n_episodes max_episode_len =
     episodes c max_episode_len (py_range n_episodes) [] w []"


section \<open>Fixtures for concrete runs\<close>

text \<open>A handler for two episodes per round, with zeroed buffers and nothing written yet.\<close>

definition handler2 :: handler where
  "handler2 =
     \<lparr>summary_writer = [], eval_run_count = 2, episode_rewards = [0, 0],
      episode_lengths = [0, 0], episode_ious = [0, 0], episode_max_ious = [0, 0]\<rparr>"

text \<open>
  A stand-in environment and agent. The state counts the calls of \<^verbatim>\<open>agent.stop_episode\<close>;
  every \<^verbatim>\<open>env.step\<close> returns the reward \<open>R\<close> and the flag \<open>flag\<close>, \<^verbatim>\<open>env.iou\<close> is \<open>u\<close> and
  \<^verbatim>\<open>env.max_iou\<close> is \<open>v\<close>.
\<close>

definition stub :: "num \<Rightarrow> bool \<Rightarrow> num \<Rightarrow> num \<Rightarrow> (nat, unit, unit) collaborators" where
  "stub R flag u v =
     \<lparr>env_reset = (\<lambda>w. ((), w)),
      env_step = (\<lambda>a w. (((), R, flag), w)),
      env_iou = (\<lambda>w. u),
      env_max_iou = (\<lambda>w. v),
      agent_act = (\<lambda>obs w. ((), w)),
      agent_stop_episode = (\<lambda>w. Suc w)\<rparr>"

section \<open>Reading the events of a run\<close>

text \<open>
  The events of a loop whose calls of \<^verbatim>\<open>env.step\<close> returned the rewards and flags \<open>rds\<close>, in
  order, and the events of a whole episode \<open>i\<close> with such a loop: the reset, the loop, then
  \<^verbatim>\<open>stop_episode\<close> and the log line with the length, the summed reward and the given
  \<open>iou\<close> and \<open>max_iou\<close>.
\<close>

definition loop_events :: "(num \<times> bool) list \<Rightarrow> event list" where
  "loop_events rds = concat (map (\<lambda>(r, d). [Act, Step r d]) rds)"

definition episode_events :: "int \<Rightarrow> (num \<times> bool) list \<Rightarrow> num \<Rightarrow> num \<Rightarrow> event list" where
  "episode_events i rds iou max_iou =
     Reset # loop_events rds @
     [StopEpisode,
      Info i (int (length rds)) (foldl py_add (PyInt 0) (map fst rds)) iou max_iou]"

text \<open>The log lines among the events, in order.\<close>

fun infos :: "event list \<Rightarrow> (int \<times> int \<times> num \<times> num \<times> num) list" where
  "infos [] = []"
| "infos (Info i t r u v # es) = (i, t, r, u, v) # infos es"
| "infos (e # es) = infos es"

text \<open>
  The variable \<^verbatim>\<open>done\<close> when the loop is left: the flag of the last step, and \<open>False\<close> when
  there was no step.
\<close>

definition exit_flag :: "(num \<times> bool) list \<Rightarrow> bool" where
  "exit_flag rds = last (False # map snd rds)"

text \<open>
  The steps \<open>rds\<close> are those of a loop that followed its condition: it was left with the
  flag set or with the step counter at the cap, and before no step was the flag set or the
  counter at the cap.
\<close>

definition loop_obeyed :: "int option \<Rightarrow> (num \<times> bool) list \<Rightarrow> bool" where
  "loop_obeyed max_episode_len rds =
     ((exit_flag rds \<or> max_episode_len = Some (int (length rds)))
      \<and> (\<forall>d \<in> set (butlast (map snd rds)). \<not> d)
      \<and> (\<forall>k < length rds. Some (int k) \<noteq> max_episode_len))"

text \<open>The float appended to \<open>scores\<close> for an episode with the steps \<open>rds\<close>.\<close>

definition score_of :: "(num \<times> bool) list \<Rightarrow> num" where
  "score_of rds = float_of_num (foldl py_add (PyInt 0) (map fst rds))"

text \<open>The events of consecutive episodes, each given by its index, steps, iou and max\_iou.\<close>

definition run_events :: "(int \<times> (num \<times> bool) list \<times> num \<times> num) list \<Rightarrow> event list" where
  "run_events eps = concat (map (\<lambda>(i, rds, u, v). episode_events i rds u v) eps)"

definition episode_reported ::
  "int option \<Rightarrow> int \<times> (num \<times> bool) list \<times> num \<times> num \<Rightarrow> bool" where
  "episode_reported max_episode_len ep =
     (case ep of (i, rds, iou, max_iou) \<Rightarrow>
        loop_obeyed max_episode_len rds \<and> is_plain_float iou \<and> is_plain_float max_iou
        \<and> (\<not> exit_flag rds \<longrightarrow> iou = PyFloat 0))"

text \<open>
  The same environment and agent, made to keep their own record: the state is paired with
  the list of the calls received so far, and every method that changes the state adds its
  own call to that list when it is called.
\<close>

definition recording ::
  "('w, 'o, 'a) collaborators \<Rightarrow> ('w \<times> event list, 'o, 'a) collaborators" where
  "recording c =
     \<lparr>env_reset = (\<lambda>(w, l). case env_reset c w of (obs, w') \<Rightarrow> (obs, (w', l @ [Reset]))),
      env_step = (\<lambda>a (w, l). case env_step c a w of
                    ((obs, r, d), w') \<Rightarrow> ((obs, r, d), (w', l @ [Step r d]))),
      env_iou = (\<lambda>(w, l). env_iou c w),
      env_max_iou = (\<lambda>(w, l). env_max_iou c w),
      agent_act = (\<lambda>obs (w, l). case agent_act c obs w of (a, w') \<Rightarrow> (a, (w', l @ [Act]))),
      agent_stop_episode = (\<lambda>(w, l). (agent_stop_episode c w, l @ [StopEpisode]))\<rparr>"

text \<open>The calls on the environment and the agent among the events: all but the log lines.\<close>

fun calls :: "event list \<Rightarrow> event list" where
  "calls [] = []"
| "calls (Info i t r u v # es) = calls es"
| "calls (e # es) = e # calls es"

section \<open>Reading the writer\<close>

text \<open>
  What the first branch of \<open>emit\<close> (lines 136 to 140) writes for a message: one scalar
  when the new-best pattern is found, nothing otherwise.
\<close>

definition best_scalars :: "int \<Rightarrow> string \<Rightarrow> scalar list" where
  "best_scalars agent_t msg =
     (case re_search best_pattern msg of
        None \<Rightarrow> []
      | Some gs \<Rightarrow> [(''evaluation_new_best_score'', Str (group gs 2), agent_t)])"

text \<open>
  The episode number a message carries, when the episode pattern is found in it and all
  five conversions succeed.
\<close>

definition episode_index ::
  "(string \<Rightarrow> int option) \<Rightarrow> (string \<Rightarrow> real option) \<Rightarrow> string \<Rightarrow> int option" where
  "episode_index int_of float_of msg =
     (case parse_episode int_of float_of msg of
        Some (Inr (episode_number, rest)) \<Rightarrow> Some episode_number
      | _ \<Rightarrow> None)"

text \<open>The handler was built for \<open>K\<close> episodes per round and its four buffers have \<open>K\<close> cells.\<close>

definition sized :: "handler \<Rightarrow> nat \<Rightarrow> bool" where
  "sized h K =
     (eval_run_count h = int K \<and> length (episode_rewards h) = K
      \<and> length (episode_lengths h) = K \<and> length (episode_ious h) = K
      \<and> length (episode_max_ious h) = K)"

text \<open>
  The handler that \<open>main\<close> builds when the four fresh arrays happen to hold zeros, and the
  five log lines of an evaluation round of five episodes, in the format of line 200.
\<close>

definition handler10 :: handler where
  "handler10 =
     \<lparr>summary_writer = [], eval_run_count = 10,
      episode_rewards = [0, 0, 0, 0, 0, 0, 0, 0, 0, 0],
      episode_lengths = [0, 0, 0, 0, 0, 0, 0, 0, 0, 0],
      episode_ious = [0, 0, 0, 0, 0, 0, 0, 0, 0, 0],
      episode_max_ious = [0, 0, 0, 0, 0, 0, 0, 0, 0, 0]\<rparr>"

definition round_of_five :: "string list" where
  "round_of_five =
     [''evaluation episode 0 length:1 R:1.5 IoU:0.5 Max_IoU:0.75'',
      ''evaluation episode 1 length:1 R:1.5 IoU:0.5 Max_IoU:0.75'',
      ''evaluation episode 2 length:1 R:1.5 IoU:0.5 Max_IoU:0.75'',
      ''evaluation episode 3 length:1 R:1.5 IoU:0.5 Max_IoU:0.75'',
      ''evaluation episode 4 length:1 R:1.5 IoU:0.5 Max_IoU:0.75'']"

section \<open>The log handler: parsing\<close>

lemma emit_unmatched:
  "re_search best_pattern msg = None \<Longrightarrow> re_search reward_pattern msg = None \<Longrightarrow>
   emit int_of float_of agent_t h msg = (None, h)"
  by (simp add: emit_def parse_episode_def)

lemma search_episode_line:
  "re_search reward_pattern ''evaluation episode 3 length:12 R:4.5 IoU:0.82 Max_IoU:0.91''
     = Some [''3'', ''12'', ''4.5'', ''0.82'', ''0.91'']"
  by (simp add: reward_pattern_def)

lemma parse_episode_line:
  "parse_episode py_int py_float
       ''evaluation episode 3 length:12 R:4.5 IoU:0.82 Max_IoU:0.91''
     = Some (Inr (3, 12, 4.5, 0.82, 0.91))"
  unfolding parse_episode_def search_episode_line
  by (simp add: group_def unsigned_int_def unsigned_float_def digit_of_def)

text \<open>
  Claim C2. The line \<^verbatim>\<open>evaluation episode 3 length:12 R:4.5 IoU:0.82 Max_IoU:0.91\<close> is not a
  new-best line and parses to the episode number 3, the length 12 (both integers), the
  reward 4.5, the IoU 0.82 and the maximal IoU 0.91. A message in which neither pattern is
  found gives no episode, and \<open>emit\<close> takes neither branch: it returns without an exception
  and leaves the handler, and so the writer, as it was.
\<close>

theorem parse_log_line:
  "parse_episode py_int py_float
       ''evaluation episode 3 length:12 R:4.5 IoU:0.82 Max_IoU:0.91''
     = Some (Inr (3, 12, 4.5, 0.82, 0.91))
   \<and> re_search best_pattern
       ''evaluation episode 3 length:12 R:4.5 IoU:0.82 Max_IoU:0.91'' = None
   \<and> (re_search best_pattern msg = None \<and> re_search reward_pattern msg = None \<longrightarrow>
        parse_episode int_of float_of msg = None
        \<and> emit int_of float_of agent_t h msg = (None, h))"
proof (intro conjI impI)
  show "parse_episode py_int py_float
          ''evaluation episode 3 length:12 R:4.5 IoU:0.82 Max_IoU:0.91''
        = Some (Inr (3, 12, 4.5, 0.82, 0.91))"
    by (rule parse_episode_line)
  show "re_search best_pattern
          ''evaluation episode 3 length:12 R:4.5 IoU:0.82 Max_IoU:0.91'' = None"
    by (simp add: best_pattern_def)
next
  assume "re_search best_pattern msg = None \<and> re_search reward_pattern msg = None"
  then show "parse_episode int_of float_of msg = None"
    by (simp add: parse_episode_def)
next
  assume "re_search best_pattern msg = None \<and> re_search reward_pattern msg = None"
  then show "emit int_of float_of agent_t h msg = (None, h)"
    by (simp add: emit_unmatched)
qed

theorem parse_log_line_witness:
  "re_search best_pattern ''train step 100 epsilon 0.3'' = None
   \<and> re_search reward_pattern ''train step 100 epsilon 0.3'' = None
   \<and> parse_episode py_int py_float ''train step 100 epsilon 0.3'' = None
   \<and> emit py_int py_float 100 handler2 ''train step 100 epsilon 0.3'' = (None, handler2)"
proof -
  have a: "re_search best_pattern ''train step 100 epsilon 0.3'' = None"
    by (simp add: best_pattern_def)
  have b: "re_search reward_pattern ''train step 100 epsilon 0.3'' = None"
    by (simp add: reward_pattern_def)
  from a b parse_log_line [of "''train step 100 epsilon 0.3''" py_int py_float 100 handler2]
  show ?thesis by blast
qed

text \<open>
  Claim C5. For a message in which neither pattern is found, \<open>emit\<close> raises nothing, writes
  no scalar and leaves every buffer as it was: the handler after the call is the handler
  before it.
\<close>

theorem emit_unmatched_silent:
  assumes "re_search best_pattern msg = None" and "re_search reward_pattern msg = None"
  shows "fst (emit int_of float_of agent_t h msg) = None
         \<and> snd (emit int_of float_of agent_t h msg) = h
         \<and> summary_writer (snd (emit int_of float_of agent_t h msg)) = summary_writer h"
  using assms by (simp add: emit_unmatched)

theorem emit_unmatched_silent_witness:
  "re_search best_pattern ''Saved the agent to results/100'' = None
   \<and> re_search reward_pattern ''Saved the agent to results/100'' = None
   \<and> fst (emit py_int py_float 100 handler2 ''Saved the agent to results/100'') = None
   \<and> snd (emit py_int py_float 100 handler2 ''Saved the agent to results/100'') = handler2"
proof -
  have a: "re_search best_pattern ''Saved the agent to results/100'' = None"
    by (simp add: best_pattern_def)
  have b: "re_search reward_pattern ''Saved the agent to results/100'' = None"
    by (simp add: reward_pattern_def)
  from a b emit_unmatched_silent [OF a b, of py_int py_float 100 handler2]
  show ?thesis by blast
qed

text \<open>
  Claim C4. For the line \<^verbatim>\<open>The best score is updated 10.0 -> 12.5\<close> the handler writes one
  scalar named \<^verbatim>\<open>evaluation_new_best_score\<close> at the agent's step count. Its value is the
  second captured group as the search returned it, the string \<^verbatim>\<open>12.5\<close>: line 138 passes the
  group on without \<^verbatim>\<open>float(...)\<close>, so the value is not a number.
\<close>

theorem emit_new_best_passes_string:
  "emit py_int py_float agent_t h ''The best score is updated 10.0 -> 12.5''
     = (None, h\<lparr>summary_writer :=
                  summary_writer h @ [(''evaluation_new_best_score'', Str ''12.5'', agent_t)]\<rparr>)
   \<and> Str ''12.5'' \<noteq> Num 12.5"
  by (simp add: emit_def parse_episode_def best_pattern_def reward_pattern_def group_def
        add_scalar_def)


text \<open>
  A line in which the episode pattern is found is not ignored when one of its fields is not
  a number: the conversion raises, and the exception leaves \<open>emit\<close>.
\<close>

lemma emit_malformed_raises:
  "emit py_int py_float agent_t h ''evaluation episode x length:1 R:1.5 IoU:0.5 Max_IoU:0.75''
     = (Some ValueError, h)"
  by (simp add: emit_def parse_episode_def best_pattern_def reward_pattern_def group_def
        unsigned_int_def digit_of_def)

section \<open>The log handler: aggregation\<close>

lemma flush_fields:
  "summary_writer (flush agent_t h) = summary_writer h @ aggregate_scalars agent_t h"
  "eval_run_count (flush agent_t h) = eval_run_count h"
  "episode_rewards (flush agent_t h) = episode_rewards h"
  "episode_lengths (flush agent_t h) = episode_lengths h"
  "episode_ious (flush agent_t h) = episode_ious h"
  "episode_max_ious (flush agent_t h) = episode_max_ious h"
  by (simp_all add: flush_def aggregate_scalars_def add_scalar_def)

lemma aggregate_scalars_flush:
  "aggregate_scalars s (flush agent_t h) = aggregate_scalars s h"
  by (simp add: aggregate_scalars_def flush_fields)

lemma setitem_length: "setitem a i v = Inr b \<Longrightarrow> length b = length a"
  by (auto simp: setitem_def Let_def split: if_splits)

lemma store_episode_writer:
  assumes "store_episode agent_t h n l r u m = (e, h')"
  shows "summary_writer h' = summary_writer h @
           (if e = None \<and> n = eval_run_count h - 1 then aggregate_scalars agent_t h' else [])"
    and "eval_run_count h' = eval_run_count h"
  using assms
  by (auto simp: store_episode_def Let_def flush_fields aggregate_scalars_flush
           split: sum.splits if_splits)

lemma store_episode_lengths:
  assumes "store_episode agent_t h n l r u m = (e, h')"
  shows "length (episode_rewards h') = length (episode_rewards h)"
    and "length (episode_lengths h') = length (episode_lengths h)"
    and "length (episode_ious h') = length (episode_ious h)"
    and "length (episode_max_ious h') = length (episode_max_ious h)"
  using assms
  by (auto simp: store_episode_def Let_def flush_fields dest: setitem_length
           split: sum.splits if_splits)

lemma emit_writer:
  assumes "emit int_of float_of agent_t h msg = (e, h')"
  shows "summary_writer h' = summary_writer h @ best_scalars agent_t msg @
           (if e = None \<and> (\<exists>l r u m. parse_episode int_of float_of msg
                                = Some (Inr (eval_run_count h - 1, l, r, u, m)))
            then aggregate_scalars agent_t h' else [])"
    and "eval_run_count h' = eval_run_count h"
proof -
  define h1 where "h1 = (case re_search best_pattern msg of
                  None \<Rightarrow> h
                | Some gs \<Rightarrow>
                    (let new_best_score = group gs 2; step_count = agent_t
                     in add_scalar ''evaluation_new_best_score'' (Str new_best_score)
                          step_count h))"
  have w1: "summary_writer h1 = summary_writer h @ best_scalars agent_t msg"
    and c1: "eval_run_count h1 = eval_run_count h"
    by (auto simp: h1_def best_scalars_def add_scalar_def Let_def split: option.splits)
  have em: "emit int_of float_of agent_t h msg =
      (case parse_episode int_of float_of msg of
           None \<Rightarrow> (None, h1)
         | Some (Inl e) \<Rightarrow> (Some e, h1)
         | Some (Inr (n, l, r, u, m)) \<Rightarrow> store_episode agent_t h1 n l r u m)"
    unfolding emit_def h1_def Let_def by (rule refl)
  show "summary_writer h' = summary_writer h @ best_scalars agent_t msg @
           (if e = None \<and> (\<exists>l r u m. parse_episode int_of float_of msg
                                = Some (Inr (eval_run_count h - 1, l, r, u, m)))
            then aggregate_scalars agent_t h' else [])"
  proof (cases "parse_episode int_of float_of msg")
    case None
    with em assms w1 show ?thesis by auto
  next
    case (Some p)
    show ?thesis
    proof (cases p)
      case (Inl x)
      with Some em assms w1 show ?thesis by auto
    next
      case (Inr t)
      obtain n l r u m where t: "t = (n, l, r, u, m)" by (cases t)
      with Some Inr em assms have st: "store_episode agent_t h1 n l r u m = (e, h')" by simp
      from store_episode_writer(1)[OF st] w1 c1 Some Inr t show ?thesis by auto
    qed
  qed
  show "eval_run_count h' = eval_run_count h"
  proof (cases "parse_episode int_of float_of msg")
    case None
    with em assms c1 show ?thesis by auto
  next
    case (Some p)
    show ?thesis
    proof (cases p)
      case (Inl x)
      with Some em assms c1 show ?thesis by auto
    next
      case (Inr t)
      obtain n l r u m where t: "t = (n, l, r, u, m)" by (cases t)
      with Some Inr em assms have st: "store_episode agent_t h1 n l r u m = (e, h')" by simp
      from store_episode_writer(2)[OF st] c1 show ?thesis by simp
    qed
  qed
qed

lemma setitem_in_range:
  "0 \<le> i \<Longrightarrow> i < int (length a) \<Longrightarrow> setitem a i v = Inr (a[nat i := v])"
  by (simp add: setitem_def Let_def)

lemma store_episode_in_range:
  assumes "sized h K" and "0 \<le> n" and "n < int K"
  shows "fst (store_episode agent_t h n l r u m) = None"
  using assms
  by (simp add: store_episode_def sized_def setitem_in_range Let_def)

lemma sized_store_episode:
  assumes "store_episode agent_t h n l r u m = (e, h')" and "sized h K"
  shows "sized h' K"
  using store_episode_lengths[OF assms(1)] store_episode_writer(2)[OF assms(1)] assms(2)
  by (simp add: sized_def)

lemma emit_episode_in_range:
  assumes sz: "sized h K"
    and nb: "re_search best_pattern msg = None"
    and ix: "episode_index int_of float_of msg = Some n"
    and rg: "0 \<le> n" "n < int K"
  shows "\<exists>h'. emit int_of float_of agent_t h msg = (None, h') \<and> sized h' K
           \<and> summary_writer h' = summary_writer h @
                (if n = int K - 1 then aggregate_scalars agent_t h' else [])"
proof -
  from ix obtain l r u m where
    p: "parse_episode int_of float_of msg = Some (Inr (n, l, r, u, m))"
    by (auto simp: episode_index_def split: option.splits sum.splits)
  have em: "emit int_of float_of agent_t h msg = store_episode agent_t h n l r u m"
    by (simp add: emit_def nb p)
  obtain e h' where st: "store_episode agent_t h n l r u m = (e, h')"
    by (cases "store_episode agent_t h n l r u m")
  from store_episode_in_range[OF sz rg, of agent_t l r u m] st have e: "e = None" by simp
  from store_episode_writer(1)[OF st] e sz
  have "summary_writer h' = summary_writer h @
                (if n = int K - 1 then aggregate_scalars agent_t h' else [])"
    by (simp add: sized_def)
  with em st e sized_store_episode[OF st sz] show ?thesis by simp
qed

lemma emit_all_in_range:
  assumes "sized h K"
    and "\<forall>msg \<in> set msgs. re_search best_pattern msg = None"
    and "map (episode_index int_of float_of) msgs = map Some ns"
    and "\<forall>n \<in> set ns. 0 \<le> n \<and> n < int K"
  shows "\<exists>h'. emit_all int_of float_of agent_t h msgs = (None, h') \<and> sized h' K
           \<and> length (summary_writer h')
               = length (summary_writer h) + 7 * count_list ns (int K - 1)
           \<and> (count_list ns (int K - 1) = 0 \<longrightarrow> summary_writer h' = summary_writer h)"
  using assms
proof (induction msgs arbitrary: h ns)
  case Nil
  then show ?case by simp
next
  case (Cons msg msgs)
  from Cons.prems(3) obtain n ns' where ns: "ns = n # ns'"
    and ix: "episode_index int_of float_of msg = Some n"
    and rest: "map (episode_index int_of float_of) msgs = map Some ns'"
    by (cases ns) auto
  from Cons.prems(4) ns have rg: "0 \<le> n" "n < int K" and rg': "\<forall>n \<in> set ns'. 0 \<le> n \<and> n < int K"
    by simp_all
  from Cons.prems(2) have nb: "re_search best_pattern msg = None"
    and nb': "\<forall>msg \<in> set msgs. re_search best_pattern msg = None" by simp_all
  from emit_episode_in_range[OF Cons.prems(1) nb ix rg, of agent_t] obtain h1 where
    e1: "emit int_of float_of agent_t h msg = (None, h1)" and s1: "sized h1 K"
    and w1: "summary_writer h1 = summary_writer h @
                (if n = int K - 1 then aggregate_scalars agent_t h1 else [])"
    by blast
  from Cons.IH[OF s1 nb' rest rg'] obtain h' where
    e2: "emit_all int_of float_of agent_t h1 msgs = (None, h')" and s2: "sized h' K"
    and w2: "length (summary_writer h')
               = length (summary_writer h1) + 7 * count_list ns' (int K - 1)"
    and z2: "count_list ns' (int K - 1) = 0 \<longrightarrow> summary_writer h' = summary_writer h1"
    by auto
  have "emit_all int_of float_of agent_t h (msg # msgs) = (None, h')"
    using e1 e2 by simp
  moreover have "length (summary_writer h')
               = length (summary_writer h) + 7 * count_list ns (int K - 1)"
    using w1 w2 ns by (simp add: aggregate_scalars_def)
  moreover have "count_list ns (int K - 1) = 0 \<longrightarrow> summary_writer h' = summary_writer h"
    using w1 z2 ns by (auto split: if_splits)
  ultimately show ?case using s2 by auto
qed

lemma main_builds_ten:
  "main_handler \<lparr>use_tensorboard = True, eval_n_episodes = 5\<rparr> (\<lambda>k i. 0) = Some (Inr handler10)"
  by (simp add: main_handler_def init_handler_def np_empty_def handler10_def upt_rec)

lemma parse_round_line:
  "parse_episode py_int py_float ''evaluation episode 0 length:1 R:1.5 IoU:0.5 Max_IoU:0.75''
     = Some (Inr (0, 1, 1.5, 0.5, 0.75))"
  "parse_episode py_int py_float ''evaluation episode 1 length:1 R:1.5 IoU:0.5 Max_IoU:0.75''
     = Some (Inr (1, 1, 1.5, 0.5, 0.75))"
  "parse_episode py_int py_float ''evaluation episode 2 length:1 R:1.5 IoU:0.5 Max_IoU:0.75''
     = Some (Inr (2, 1, 1.5, 0.5, 0.75))"
  "parse_episode py_int py_float ''evaluation episode 3 length:1 R:1.5 IoU:0.5 Max_IoU:0.75''
     = Some (Inr (3, 1, 1.5, 0.5, 0.75))"
  "parse_episode py_int py_float ''evaluation episode 4 length:1 R:1.5 IoU:0.5 Max_IoU:0.75''
     = Some (Inr (4, 1, 1.5, 0.5, 0.75))"
  by (simp_all add: parse_episode_def reward_pattern_def group_def unsigned_int_def
        unsigned_float_def digit_of_def)

lemma best_round_line:
  "re_search best_pattern ''evaluation episode 0 length:1 R:1.5 IoU:0.5 Max_IoU:0.75'' = None"
  "re_search best_pattern ''evaluation episode 1 length:1 R:1.5 IoU:0.5 Max_IoU:0.75'' = None"
  "re_search best_pattern ''evaluation episode 2 length:1 R:1.5 IoU:0.5 Max_IoU:0.75'' = None"
  "re_search best_pattern ''evaluation episode 3 length:1 R:1.5 IoU:0.5 Max_IoU:0.75'' = None"
  "re_search best_pattern ''evaluation episode 4 length:1 R:1.5 IoU:0.5 Max_IoU:0.75'' = None"
  by (simp_all add: best_pattern_def)

lemma round_of_five_indices:
  "map (episode_index py_int py_float) round_of_five = map Some [0, 1, 2, 3, 4]"
  by (simp add: round_of_five_def episode_index_def parse_round_line)

lemma round_of_five_no_best:
  "\<forall>msg \<in> set round_of_five. re_search best_pattern msg = None"
  by (simp add: round_of_five_def best_round_line del: re_search.simps)

lemma sized_handler10: "sized handler10 10"
  by (simp add: sized_def handler10_def)

text \<open>
  Claim C1, at a configuration with \<^verbatim>\<open>eval_n_episodes = 5\<close>. \<open>main\<close> builds the handler with
  its local \<^verbatim>\<open>eval_run_count = 10\<close>, so the four buffers have 10 cells, not 5, and the flush
  waits for the episode number 9. The five lines of a round, with the episode numbers 0 to
  4, are stored without an exception and no scalar is written: the round ends without its
  burst. (Lemma \<open>emit_all_in_range\<close> is the general count: a handler built for \<open>K\<close> episodes
  writes seven scalars for each line with the episode number \<open>K - 1\<close>, and none for another.)
\<close>

theorem main_round_of_five_no_burst:
  "main_handler \<lparr>use_tensorboard = True, eval_n_episodes = 5\<rparr> (\<lambda>k i. 0) = Some (Inr handler10)
   \<and> eval_run_count handler10 = 10
   \<and> length (episode_rewards handler10) = 10 \<and> length (episode_lengths handler10) = 10
   \<and> length (episode_ious handler10) = 10 \<and> length (episode_max_ious handler10) = 10
   \<and> map (episode_index py_int py_float) round_of_five
       = [Some 0, Some 1, Some 2, Some 3, Some 4]
   \<and> fst (emit_all py_int py_float 1000 handler10 round_of_five) = None
   \<and> summary_writer (snd (emit_all py_int py_float 1000 handler10 round_of_five)) = []"
proof -
  have rg: "\<forall>n \<in> set [0, 1, 2, 3, 4 :: int]. 0 \<le> n \<and> n < int 10" by simp
  from emit_all_in_range[OF sized_handler10 round_of_five_no_best round_of_five_indices rg,
         of 1000]
  obtain h' where e: "emit_all py_int py_float 1000 handler10 round_of_five = (None, h')"
    and z: "count_list [0, 1, 2, 3, 4 :: int] (int 10 - 1) = 0 \<longrightarrow>
              summary_writer h' = summary_writer handler10"
    by auto
  from z have "summary_writer h' = []" by (simp add: handler10_def)
  with e main_builds_ten round_of_five_indices sized_handler10 show ?thesis
    by (simp add: sized_def)
qed

text \<open>
  Claim C9. When \<open>emit\<close> handles, without an exception, a line whose episode number is
  \<open>eval_run_count - 1\<close>, it appends to the writer what the new-best branch writes for the
  message and then the seven aggregate scalars, with the seven names in the source's order.
  All seven carry the same step: the agent's step count \<open>agent_t\<close> of this call of \<open>emit\<close>,
  which is also the step of a new-best scalar of the same call.
\<close>

theorem burst_shares_step:
  assumes "parse_episode int_of float_of msg = Some (Inr (eval_run_count h - 1, l, r, u, m))"
    and "fst (emit int_of float_of agent_t h msg) = None"
    and "h' = snd (emit int_of float_of agent_t h msg)"
  shows "summary_writer h'
           = summary_writer h @ best_scalars agent_t msg @ aggregate_scalars agent_t h'
         \<and> map fst (aggregate_scalars agent_t h')
             = [''evaluation_length_mean'', ''evaluation_reward_mean'',
                ''evaluation_reward_median'', ''evaluation_reward_variance'',
                ''evaluation_iou_mean'', ''evaluation_iou_median'',
                ''evaluation_max_iou_mean'']
         \<and> map (\<lambda>(name, v, step). step) (aggregate_scalars agent_t h')
             = [agent_t, agent_t, agent_t, agent_t, agent_t, agent_t, agent_t]
         \<and> map (\<lambda>(name, v, step). step) (best_scalars agent_t msg)
             = replicate (length (best_scalars agent_t msg)) agent_t"
proof -
  from assms(2,3) have em: "emit int_of float_of agent_t h msg = (None, h')"
    by (metis prod.collapse)
  from emit_writer(1)[OF em] assms(1)
  have "summary_writer h'
           = summary_writer h @ best_scalars agent_t msg @ aggregate_scalars agent_t h'"
    by simp
  moreover have "map (\<lambda>(name, v, step). step) (best_scalars agent_t msg)
             = replicate (length (best_scalars agent_t msg)) agent_t"
    by (simp add: best_scalars_def split: option.splits)
  ultimately show ?thesis by (simp add: aggregate_scalars_def)
qed

lemma parse_last_of_two:
  "parse_episode py_int py_float ''evaluation episode 1 length:3 R:2.5 IoU:0.5 Max_IoU:0.75''
     = Some (Inr (1, 3, 2.5, 0.5, 0.75))"
  by (simp add: parse_episode_def reward_pattern_def group_def unsigned_int_def
        unsigned_float_def digit_of_def)

lemma emit_last_of_two:
  "fst (emit py_int py_float 100 handler2
          ''evaluation episode 1 length:3 R:2.5 IoU:0.5 Max_IoU:0.75'') = None"
  unfolding emit_def parse_last_of_two
  by (simp add: best_pattern_def store_episode_def setitem_def handler2_def)

theorem burst_shares_step_witness:
  "parse_episode py_int py_float ''evaluation episode 1 length:3 R:2.5 IoU:0.5 Max_IoU:0.75''
     = Some (Inr (eval_run_count handler2 - 1, 3, 2.5, 0.5, 0.75))
   \<and> fst (emit py_int py_float 100 handler2
          ''evaluation episode 1 length:3 R:2.5 IoU:0.5 Max_IoU:0.75'') = None
   \<and> map (\<lambda>(name, v, step). step)
        (summary_writer (snd (emit py_int py_float 100 handler2
          ''evaluation episode 1 length:3 R:2.5 IoU:0.5 Max_IoU:0.75'')))
       = [100, 100, 100, 100, 100, 100, 100]"
proof -
  have p: "parse_episode py_int py_float
             ''evaluation episode 1 length:3 R:2.5 IoU:0.5 Max_IoU:0.75''
     = Some (Inr (eval_run_count handler2 - 1, 3, 2.5, 0.5, 0.75))"
    using parse_last_of_two by (simp add: handler2_def)
  have b: "best_scalars 100 ''evaluation episode 1 length:3 R:2.5 IoU:0.5 Max_IoU:0.75'' = []"
    by (simp add: best_scalars_def best_pattern_def)
  have w: "summary_writer handler2 = []" by (simp add: handler2_def)
  note r = burst_shares_step [OF p emit_last_of_two refl]
  from r have "summary_writer (snd (emit py_int py_float 100 handler2
          ''evaluation episode 1 length:3 R:2.5 IoU:0.5 Max_IoU:0.75''))
     = aggregate_scalars 100 (snd (emit py_int py_float 100 handler2
          ''evaluation episode 1 length:3 R:2.5 IoU:0.5 Max_IoU:0.75''))"
    unfolding b w by simp
  moreover from r have "map (\<lambda>(name, v, step). step)
       (aggregate_scalars 100 (snd (emit py_int py_float 100 handler2
          ''evaluation episode 1 length:3 R:2.5 IoU:0.5 Max_IoU:0.75'')))
       = [100, 100, 100, 100, 100, 100, 100]"
    by blast
  ultimately show ?thesis using p emit_last_of_two by simp
qed


section \<open>The evaluation loop\<close>

lemma step_loop_exit:
  assumes "step_loop c m w ev obs done test_r t = Some y"
  shows "case y of (w', ev', obs', done', test_r', t') \<Rightarrow>
           (done' \<or> Some t' = m) \<and>
           (\<exists>rds. ev' = ev @ loop_events rds \<and> t' = t + int (length rds)
                  \<and> test_r' = foldl py_add test_r (map fst rds)
                  \<and> done' = last (done # map snd rds)
                  \<and> (\<forall>d \<in> set (butlast (done # map snd rds)). \<not> d)
                  \<and> (\<forall>k < length rds. Some (t + int k) \<noteq> m))"
  using assms
proof (induction c m w ev obs "done" test_r t y rule: step_loop.raw_induct[rotated 1, consumes 1])
  case (1 f c m w ev obs d0 test_r t y)
  show ?case
  proof (cases "\<not> (d0 \<or> Some t = m)")
    case False
    with 1(2) have "y = (w, ev, obs, d0, test_r, t)" by auto
    with False show ?thesis
      by (auto intro!: exI[of _ "[]"] simp: loop_events_def)
  next
    case True
    obtain a w1 where act: "agent_act c obs w = (a, w1)" by (cases "agent_act c obs w")
    obtain obs' r d w2 where st: "env_step c a w1 = ((obs', r, d), w2)"
      by (cases "env_step c a w1") auto
    from 1(2) True act st
    have rec: "f c m w2 (ev @ [Act, Step r d]) obs' d (py_add test_r r) (t + 1) = Some y"
      by simp
    obtain w' ev' obs'' done' test_r' t' where y: "y = (w', ev', obs'', done', test_r', t')"
      by (cases y)
    from rec y
    have rec': "f c m w2 (ev @ [Act, Step r d]) obs' d (py_add test_r r) (t + 1)
                 = Some (w', ev', obs'', done', test_r', t')"
      by simp
    from 1(1)[OF rec']
    have "(done' \<or> Some t' = m) \<and>
           (\<exists>rds. ev' = (ev @ [Act, Step r d]) @ loop_events rds
                  \<and> t' = t + 1 + int (length rds)
                  \<and> test_r' = foldl py_add (py_add test_r r) (map fst rds)
                  \<and> done' = last (d # map snd rds)
                  \<and> (\<forall>x \<in> set (butlast (d # map snd rds)). \<not> x)
                  \<and> (\<forall>k < length rds. Some (t + 1 + int k) \<noteq> m))"
      by (simp only: prod.case)
    then obtain rds where
      ex: "done' \<or> Some t' = m" "ev' = (ev @ [Act, Step r d]) @ loop_events rds"
        "t' = t + 1 + int (length rds)" "test_r' = foldl py_add (py_add test_r r) (map fst rds)"
        "done' = last (d # map snd rds)" "\<forall>x \<in> set (butlast (d # map snd rds)). \<not> x"
        "\<forall>k < length rds. Some (t + 1 + int k) \<noteq> m"
      by blast
    from True have nd: "\<not> d0" and nm: "Some t \<noteq> m" by simp_all
    have "ev' = ev @ loop_events ((r, d) # rds)"
      using ex(2) by (simp add: loop_events_def)
    moreover have "t' = t + int (length ((r, d) # rds))" using ex(3) by simp
    moreover have "test_r' = foldl py_add test_r (map fst ((r, d) # rds))" using ex(4) by simp
    moreover have "done' = last (d0 # map snd ((r, d) # rds))" using ex(5) by simp
    moreover have "\<forall>x \<in> set (butlast (d0 # map snd ((r, d) # rds))). \<not> x"
      using ex(6) nd by simp
    moreover have "\<forall>k < length ((r, d) # rds). Some (t + int k) \<noteq> m"
    proof (intro allI impI)
      fix k assume k: "k < length ((r, d) # rds)"
      show "Some (t + int k) \<noteq> m"
      proof (cases k)
        case 0 with nm show ?thesis by simp
      next
        case (Suc j)
        with k have "j < length rds" by simp
        with ex(7) have "Some (t + 1 + int j) \<noteq> m" by blast
        moreover have "t + 1 + int j = t + int k" using Suc by simp
        ultimately show ?thesis by simp
      qed
    qed
    ultimately show ?thesis using ex(1) y by blast
  qed
qed

lemma step_loop_returns:
  "t \<le> m \<Longrightarrow> \<exists>y. step_loop c (Some m) w ev obs done test_r t = Some y"
proof (induction "nat (m - t)" arbitrary: w ev obs "done" test_r t)
  case 0
  then have "t = m" by simp
  then show ?case by (subst step_loop.simps) auto
next
  case (Suc n)
  show ?case
  proof (cases "done")
    case True
    then show ?thesis by (subst step_loop.simps) auto
  next
    case False
    obtain a w1 where act: "agent_act c obs w = (a, w1)" by (cases "agent_act c obs w")
    obtain obs' r d w2 where st: "env_step c a w1 = ((obs', r, d), w2)"
      by (cases "env_step c a w1") auto
    from Suc(2) have lt: "t \<noteq> m" "t + 1 \<le> m" "n = nat (m - (t + 1))" by simp_all
    have unfold: "step_loop c (Some m) w ev obs done test_r t
        = step_loop c (Some m) w2 (ev @ [Act, Step r d]) obs' d (py_add test_r r) (t + 1)"
      using False lt(1) act st by (subst step_loop.simps) simp
    from Suc(1)[OF lt(3) lt(2)] show ?thesis
      unfolding unfold .
  qed
qed

lemma step_loop_diverges_aux:
  assumes "step_loop c m w ev obs done test_r t = Some y"
  shows "m = None \<Longrightarrow> (\<forall>a w. \<not> snd (snd (fst (env_step c a w)))) \<Longrightarrow> \<not> done \<Longrightarrow> False"
  using assms
proof (induction c m w ev obs "done" test_r t y rule: step_loop.raw_induct[rotated 1, consumes 1])
  case (1 f c m w ev obs d0 test_r t y)
  obtain a w1 where act: "agent_act c obs w = (a, w1)" by (cases "agent_act c obs w")
  obtain obs' r d w2 where st: "env_step c a w1 = ((obs', r, d), w2)"
    by (cases "env_step c a w1") auto
  from 1(4) st have nd: "\<not> d" by (metis fst_conv snd_conv)
  from 1(2) 1(3) 1(5) act st
  have "f c m w2 (ev @ [Act, Step r d]) obs' d (py_add test_r r) (t + 1) = Some y" by simp
  from 1(1)[OF this 1(3) 1(4) nd] show ?case .
qed

lemma step_loop_diverges:
  "(\<forall>a w. \<not> snd (snd (fst (env_step c a w)))) \<Longrightarrow>
   step_loop c None w ev obs False test_r t = None"
  using step_loop_diverges_aux[of c None w ev obs False test_r t]
  by (cases "step_loop c None w ev obs False test_r t") auto

lemma run_episode_Some:
  assumes "run_episode c m i w ev = Some (score, w', ev')"
  shows "\<exists>rds. ev' = ev @ episode_events i rds
                   (if last (False # map snd rds) then float_of_num (env_iou c w')
                    else PyFloat 0)
                   (float_of_num (env_max_iou c w'))
             \<and> score = float_of_num (foldl py_add (PyInt 0) (map fst rds))
             \<and> (last (False # map snd rds) \<or> m = Some (int (length rds)))
             \<and> (\<forall>d \<in> set (butlast (False # map snd rds)). \<not> d)
             \<and> (\<forall>k < length rds. Some (int k) \<noteq> m)"
proof -
  obtain obs w0 where r: "env_reset c w = (obs, w0)" by (cases "env_reset c w")
  from assms r obtain w1 ev1 obs1 dn test_r t where
    loop: "step_loop c m w0 (ev @ [Reset]) obs False (PyInt 0) 0
             = Some (w1, ev1, obs1, dn, test_r, t)"
    by (auto simp: run_episode_def split: option.splits)
  from assms r loop have
    res: "score = float_of_num test_r" "w' = agent_stop_episode c w1"
      "ev' = ev1 @ [StopEpisode, Info i t test_r
                (if dn then float_of_num (env_iou c w') else float_of_num (PyInt 0))
                (float_of_num (env_max_iou c w'))]"
    by (auto simp: run_episode_def Let_def)
  from step_loop_exit[OF loop] obtain rds where
    ex: "dn \<or> Some t = m" "ev1 = (ev @ [Reset]) @ loop_events rds" "t = 0 + int (length rds)"
      "test_r = foldl py_add (PyInt 0) (map fst rds)" "dn = last (False # map snd rds)"
      "\<forall>d \<in> set (butlast (False # map snd rds)). \<not> d"
      "\<forall>k < length rds. Some (0 + int k) \<noteq> m"
    by (simp only: prod.case) blast
  have "ev' = ev @ episode_events i rds
                   (if last (False # map snd rds) then float_of_num (env_iou c w')
                    else PyFloat 0)
                   (float_of_num (env_max_iou c w'))"
    using res(3) ex(2,3,4,5) by (simp add: episode_events_def float_of_num_def)
  moreover have "score = float_of_num (foldl py_add (PyInt 0) (map fst rds))"
    using res(1) ex(4) by simp
  moreover have "last (False # map snd rds) \<or> m = Some (int (length rds))"
    using ex(1,3,5) by auto
  moreover have "\<forall>k < length rds. Some (int k) \<noteq> m" using ex(7) by simp
  ultimately show ?thesis using ex(6) by blast
qed

lemma infos_append: "infos (a @ b) = infos a @ infos b"
  by (induction a rule: infos.induct) simp_all

lemma infos_loop_events: "infos (loop_events rds) = []"
  by (induction rds) (auto simp: loop_events_def)

lemma count_stop_loop_events: "count_list (loop_events rds) StopEpisode = 0"
  by (induction rds) (auto simp: loop_events_def)

lemma infos_episode_events:
  "infos (episode_events i rds u v)
     = [(i, int (length rds), foldl py_add (PyInt 0) (map fst rds), u, v)]"
  by (simp add: episode_events_def infos_append infos_loop_events)

lemma count_stop_episode_events: "count_list (episode_events i rds u v) StopEpisode = 1"
  by (simp add: episode_events_def count_stop_loop_events)

lemma run_events_Cons:
  "run_events ((i, rds, u, v) # eps) = episode_events i rds u v @ run_events eps"
  by (simp add: run_events_def)

lemma infos_run_events:
  "infos (run_events eps)
     = map (\<lambda>(i, rds, u, v). (i, int (length rds), foldl py_add (PyInt 0) (map fst rds), u, v)) eps"
  by (induction eps) (auto simp: run_events_def infos_append infos_episode_events)

lemma count_stop_run_events: "count_list (run_events eps) StopEpisode = length eps"
  by (induction eps) (auto simp: run_events_def count_stop_episode_events)

lemma run_episode_shape:
  assumes "run_episode c m i w ev = Some (score, w', ev')"
  shows "\<exists>rds. ev' = ev @ episode_events i rds
                   (if exit_flag rds then float_of_num (env_iou c w') else PyFloat 0)
                   (float_of_num (env_max_iou c w'))
             \<and> score = score_of rds \<and> loop_obeyed m rds"
proof -
  from run_episode_Some[OF assms] obtain rds where
    e1: "ev' = ev @ episode_events i rds
                   (if last (False # map snd rds) then float_of_num (env_iou c w')
                    else PyFloat 0)
                   (float_of_num (env_max_iou c w'))"
    and e2: "score = float_of_num (foldl py_add (PyInt 0) (map fst rds))"
    and e3: "last (False # map snd rds) \<or> m = Some (int (length rds))"
    and e4: "\<forall>d \<in> set (butlast (False # map snd rds)). \<not> d"
    and e5: "\<forall>k < length rds. Some (int k) \<noteq> m"
    by blast
  from e4 have e4': "\<forall>d \<in> set (butlast (map snd rds)). \<not> d"
    by (cases rds) auto
  have "loop_obeyed m rds"
    unfolding loop_obeyed_def exit_flag_def using e3 e4' e5 by blast
  with e1 e2 show ?thesis
    unfolding exit_flag_def score_of_def by blast
qed

lemma episodes_shape:
  assumes "episodes c m is scores w ev = Some (scores', w', ev')"
  shows "\<exists>eps. ev' = ev @ run_events eps \<and> map fst eps = is
           \<and> scores' = scores @ map (\<lambda>(i, rds, u, v). score_of rds) eps
           \<and> (\<forall>ep \<in> set eps. episode_reported m ep)"
  using assms
proof (induction "is" arbitrary: scores w ev)
  case Nil
  then show ?case by (auto intro!: exI[of _ "[]"] simp: run_events_def)
next
  case (Cons i "is")
  from Cons.prems obtain score w1 ev1 where
    ep: "run_episode c m i w ev = Some (score, w1, ev1)" and
    rest: "episodes c m is (scores @ [score]) w1 ev1 = Some (scores', w', ev')"
    by (auto split: option.splits)
  define u where "u rds = (if exit_flag rds then float_of_num (env_iou c w1) else PyFloat 0)"
    for rds
  define v where "v = float_of_num (env_max_iou c w1)"
  from run_episode_shape[OF ep] obtain rds where
    e1: "ev1 = ev @ episode_events i rds (u rds) v"
    and e2: "score = score_of rds" and e3: "loop_obeyed m rds"
    unfolding u_def v_def by blast
  from Cons.IH[OF rest] obtain eps where
    r1: "ev' = ev1 @ run_events eps" and r2: "map fst eps = is"
    and r3: "scores' = (scores @ [score]) @ map (\<lambda>(i, rds, u, v). score_of rds) eps"
    and r4: "\<forall>ep \<in> set eps. episode_reported m ep"
    by blast
  let ?eps = "(i, rds, u rds, v) # eps"
  have a: "ev' = ev @ run_events ?eps"
    using r1 e1 by (simp add: run_events_Cons)
  have b: "map fst ?eps = i # is" using r2 by simp
  have c: "scores' = scores @ map (\<lambda>(i, rds, u, v). score_of rds) ?eps"
    using r3 e2 by simp
  have "episode_reported m (i, rds, u rds, v)"
    using e3 by (simp add: episode_reported_def u_def v_def float_of_num_def)
  then have d: "\<forall>ep \<in> set ?eps. episode_reported m ep" using r4 by simp
  show ?case
    by (rule exI[of _ ?eps]) (use a b c d in blast)
qed

lemma run_episode_returns:
  assumes "0 \<le> m"
  shows "\<exists>y. run_episode c (Some m) i w ev = Some y"
proof -
  obtain obs w0 where r: "env_reset c w = (obs, w0)" by (cases "env_reset c w")
  from step_loop_returns[OF assms, of c w0 "ev @ [Reset]" obs False "PyInt 0"]
  obtain y where "step_loop c (Some m) w0 (ev @ [Reset]) obs False (PyInt 0) 0 = Some y"
    by blast
  with r show ?thesis
    by (cases y) (simp add: run_episode_def Let_def)
qed

lemma episodes_returns:
  assumes "0 \<le> m"
  shows "\<exists>y. episodes c (Some m) is scores w ev = Some y"
proof (induction "is" arbitrary: scores w ev)
  case Nil
  show ?case by simp
next
  case (Cons i "is")
  from run_episode_returns[OF assms, of c i w ev] obtain score w1 ev1 where
    "run_episode c (Some m) i w ev = Some (score, w1, ev1)"
    by (metis prod_cases3)
  with Cons[of "scores @ [score]" w1 ev1] show ?case by simp
qed

lemma run_episode_diverges:
  assumes "\<forall>a w. \<not> snd (snd (fst (env_step c a w)))"
  shows "run_episode c None i w ev = None"
proof -
  obtain obs w0 where r: "env_reset c w = (obs, w0)" by (cases "env_reset c w")
  from step_loop_diverges[OF assms] r show ?thesis
    by (simp add: run_episode_def)
qed

lemma loop_obeyed_bound:
  assumes "loop_obeyed (Some m) rds" and "0 \<le> m"
  shows "int (length rds) \<le> m"
proof (rule ccontr)
  assume "\<not> int (length rds) \<le> m"
  with assms(2) have "nat m < length rds" "int (nat m) = m" by simp_all
  with assms(1) show False unfolding loop_obeyed_def by (metis)
qed

lemma py_add_zero: "py_add (PyInt 0) R = R"
  by (cases R) simp_all

lemma py_range_simps: "py_range 1 = [0]" "py_range 2 = [0, 1]" "py_range 5 = [0, 1, 2, 3, 4]"
  by (simp_all add: py_range_def upt_rec)

text \<open>
  Claim C3. Whenever an episode of the evaluation loop ends, its events are the reset, the
  steps, \<^verbatim>\<open>stop_episode\<close> and one log line. The \<open>max_iou\<close> of the line is \<^verbatim>\<open>float(env.max_iou)\<close>
  read in the final state. If the last step returned \<^verbatim>\<open>done\<close>, the \<open>iou\<close> of the line is
  \<^verbatim>\<open>float(env.iou)\<close> read in the final state; if the loop was left without \<^verbatim>\<open>done\<close>, the step
  counter is at \<open>max_episode_len\<close> and the \<open>iou\<close> of the line is the float 0.
\<close>

theorem episode_iou_report:
  assumes "run_episode c max_episode_len i w ev = Some (score, w', ev')"
  shows "\<exists>rds iou max_iou.
           ev' = ev @ episode_events i rds iou max_iou
           \<and> loop_obeyed max_episode_len rds
           \<and> max_iou = float_of_num (env_max_iou c w')
           \<and> (exit_flag rds \<longrightarrow> iou = float_of_num (env_iou c w'))
           \<and> (\<not> exit_flag rds \<longrightarrow>
                 iou = PyFloat 0 \<and> max_episode_len = Some (int (length rds)))"
proof -
  from run_episode_shape[OF assms] obtain rds where
    e: "ev' = ev @ episode_events i rds
                   (if exit_flag rds then float_of_num (env_iou c w') else PyFloat 0)
                   (float_of_num (env_max_iou c w'))"
    and l: "loop_obeyed max_episode_len rds"
    by blast
  from l have cap: "\<not> exit_flag rds \<longrightarrow> max_episode_len = Some (int (length rds))"
    unfolding loop_obeyed_def by blast
  show ?thesis
    by (rule exI[of _ rds], rule exI[of _ "if exit_flag rds then float_of_num (env_iou c w') else PyFloat 0"],
        rule exI[of _ "float_of_num (env_max_iou c w')"]) (use e l cap in simp)
qed

lemma capped_episode:
  "run_episode (stub (PyFloat 1) False (PyFloat 0.5) (PyFloat 0.75)) (Some 2) 0 0 []
     = Some (PyFloat 2, 1,
             [Reset, Act, Step (PyFloat 1) False, Act, Step (PyFloat 1) False, StopEpisode,
              Info 0 2 (PyFloat 2) (PyFloat 0) (PyFloat 0.75)])"
  by (simp add: run_episode_def step_loop.simps stub_def float_of_num_def)

theorem episode_iou_report_witness:
  "run_episode (stub (PyFloat 1) False (PyFloat 0.5) (PyFloat 0.75)) (Some 2) 0 0 []
     = Some (PyFloat 2, 1,
             [Reset, Act, Step (PyFloat 1) False, Act, Step (PyFloat 1) False, StopEpisode,
              Info 0 2 (PyFloat 2) (PyFloat 0) (PyFloat 0.75)])
   \<and> (\<exists>rds iou max_iou.
         [Reset, Act, Step (PyFloat 1) False, Act, Step (PyFloat 1) False, StopEpisode,
          Info 0 2 (PyFloat 2) (PyFloat 0) (PyFloat 0.75)] = [] @ episode_events 0 rds iou max_iou
         \<and> loop_obeyed (Some 2) rds
         \<and> max_iou = float_of_num
                (env_max_iou (stub (PyFloat 1) False (PyFloat 0.5) (PyFloat 0.75)) 1)
         \<and> (exit_flag rds \<longrightarrow> iou = float_of_num
                (env_iou (stub (PyFloat 1) False (PyFloat 0.5) (PyFloat 0.75)) 1))
         \<and> (\<not> exit_flag rds \<longrightarrow> iou = PyFloat 0 \<and> Some 2 = Some (int (length rds))))"
  using capped_episode episode_iou_report [OF capped_episode] by simp

lemma run_shape:
  assumes "run_localization_evaluation_episodes c w n_steps n m = Some (scores, w', ev')"
  shows "\<exists>eps. ev' = run_events eps \<and> map fst eps = py_range n
           \<and> scores = map (\<lambda>(i, rds, u, v). score_of rds) eps
           \<and> (\<forall>ep \<in> set eps. episode_reported m ep)"
  using episodes_shape[of c m "py_range n" "[]" w "[]" scores w' ev'] assms
  by (simp add: run_localization_evaluation_episodes_def)

lemma run_returns:
  assumes "0 \<le> m"
  shows "\<exists>y. run_localization_evaluation_episodes c w n_steps n (Some m) = Some y"
  using episodes_returns[OF assms] by (simp add: run_localization_evaluation_episodes_def)

lemma run_diverges:
  assumes "\<forall>a w. \<not> snd (snd (fst (env_step c a w)))" and "0 < n"
  shows "run_localization_evaluation_episodes c w n_steps n None = None"
proof -
  from assms(2) have "py_range n = 0 # map int [1..<nat n]"
    by (simp add: py_range_def upt_rec)
  then show ?thesis
    by (simp add: run_localization_evaluation_episodes_def run_episode_diverges[OF assms(1)])
qed

lemma step_loop_start:
  "step_loop c (Some m) w0 ev0 obs0 False (PyInt 0) 0 = Some (w1, ev1, obs1, dn, test_r, t)
   \<Longrightarrow> 0 \<le> m
   \<Longrightarrow> 0 \<le> t \<and> t \<le> m \<and> (dn \<or> t = m)
       \<and> (\<exists>rds. ev1 = ev0 @ loop_events rds \<and> t = int (length rds))"
proof -
  assume loop: "step_loop c (Some m) w0 ev0 obs0 False (PyInt 0) 0 = Some (w1, ev1, obs1, dn, test_r, t)"
    and m: "0 \<le> m"
  from step_loop_exit[OF loop] obtain rds where
    ex: "dn \<or> Some t = Some m" "ev1 = ev0 @ loop_events rds" "t = 0 + int (length rds)"
      "\<forall>k < length rds. Some (0 + int k) \<noteq> Some m"
    by (simp only: prod.case) blast
  have "t \<le> m"
  proof (rule ccontr)
    assume "\<not> t \<le> m"
    with m ex(3) have "nat m < length rds" "0 + int (nat m) = m" by simp_all
    with ex(4) show False by (metis)
  qed
  with ex show ?thesis by auto
qed

lemma capped_run:
  "run_localization_evaluation_episodes (stub (PyFloat 1) False (PyFloat 0.5) (PyFloat 0.75))
       0 None 2 (Some 2)
     = Some ([PyFloat 2, PyFloat 2], 2,
             [Reset, Act, Step (PyFloat 1) False, Act, Step (PyFloat 1) False, StopEpisode,
              Info 0 2 (PyFloat 2) (PyFloat 0) (PyFloat 0.75),
              Reset, Act, Step (PyFloat 1) False, Act, Step (PyFloat 1) False, StopEpisode,
              Info 1 2 (PyFloat 2) (PyFloat 0) (PyFloat 0.75)])"
  by (simp add: run_localization_evaluation_episodes_def py_range_simps run_episode_def
        step_loop.simps stub_def float_of_num_def)

lemma done_episode:
  "run_episode (stub (PyInt 1) True (PyFloat 0.5) (PyFloat 0.75)) None 0 0 []
     = Some (PyFloat 1, 1,
             [Reset, Act, Step (PyInt 1) True, StopEpisode,
              Info 0 1 (PyInt 1) (PyFloat 0.5) (PyFloat 0.75)])"
  by (simp add: run_episode_def step_loop.simps stub_def float_of_num_def)

text \<open>
  Claim C10. With a cap \<open>max_episode_len = m\<close> that is a natural number, the step loop of an
  episode, started with \<^verbatim>\<open>done = False\<close> and \<^verbatim>\<open>t = 0\<close>, ends: it has made \<open>t\<close> steps, with
  \<open>0 \<le> t \<le> m\<close>, and it ends with \<^verbatim>\<open>done\<close> set or with \<open>t = m\<close>. So the whole function returns
  for every number of episodes, and every logged length is between 0 and \<open>m\<close>. Without a cap
  (\<^verbatim>\<open>None\<close>), and with an environment whose steps never return \<^verbatim>\<open>done\<close>, the function does
  not return as soon as there is one episode to run.
\<close>

theorem evaluation_terminates:
  "(0 \<le> m \<longrightarrow>
      (\<exists>w1 ev1 obs1 dn test_r t.
          step_loop c (Some m) w0 ev0 obs0 False (PyInt 0) 0
            = Some (w1, ev1, obs1, dn, test_r, t)
          \<and> 0 \<le> t \<and> t \<le> m \<and> (dn \<or> t = m)
          \<and> (\<exists>rds. ev1 = ev0 @ loop_events rds \<and> t = int (length rds))))
   \<and> (0 \<le> m \<longrightarrow>
      (\<exists>scores w' ev'.
          run_localization_evaluation_episodes c w n_steps n_episodes (Some m)
            = Some (scores, w', ev')
          \<and> (\<forall>(i, t, r, u, v) \<in> set (infos ev'). 0 \<le> t \<and> t \<le> m)))
   \<and> ((\<forall>a w. \<not> snd (snd (fst (env_step c a w)))) \<and> 0 < n_episodes \<longrightarrow>
        run_localization_evaluation_episodes c w n_steps n_episodes None = None)"
proof (intro conjI impI)
  assume m: "0 \<le> m"
  from step_loop_returns[OF m, of c w0 ev0 obs0 False "PyInt 0"] obtain w1 ev1 obs1 dn test_r t
    where loop: "step_loop c (Some m) w0 ev0 obs0 False (PyInt 0) 0
                   = Some (w1, ev1, obs1, dn, test_r, t)"
    by (metis prod_cases3)
  from step_loop_start[OF loop m] loop
  show "\<exists>w1 ev1 obs1 dn test_r t.
          step_loop c (Some m) w0 ev0 obs0 False (PyInt 0) 0
            = Some (w1, ev1, obs1, dn, test_r, t)
          \<and> 0 \<le> t \<and> t \<le> m \<and> (dn \<or> t = m)
          \<and> (\<exists>rds. ev1 = ev0 @ loop_events rds \<and> t = int (length rds))"
    by blast
next
  assume m: "0 \<le> m"
  from run_returns[OF m, of c w n_steps n_episodes] obtain scores w' ev' where
    run: "run_localization_evaluation_episodes c w n_steps n_episodes (Some m)
            = Some (scores, w', ev')"
    by (metis prod_cases3)
  from run_shape[OF run] obtain eps where
    ev: "ev' = run_events eps" and ok: "\<forall>ep \<in> set eps. episode_reported (Some m) ep"
    by blast
  have "\<forall>(i, t, r, u, v) \<in> set (infos ev'). 0 \<le> t \<and> t \<le> m"
  proof (clarify)
    fix i t r u v assume "(i, t, r, u, v) \<in> set (infos ev')"
    with ev obtain rds u' v' where mem: "(i, rds, u', v') \<in> set eps" and t: "t = int (length rds)"
      by (auto simp: infos_run_events)
    from ok mem have "loop_obeyed (Some m) rds" by (auto simp: episode_reported_def)
    from loop_obeyed_bound[OF this m] t show "0 \<le> t \<and> t \<le> m" by simp
  qed
  with run show "\<exists>scores w' ev'.
          run_localization_evaluation_episodes c w n_steps n_episodes (Some m)
            = Some (scores, w', ev')
          \<and> (\<forall>(i, t, r, u, v) \<in> set (infos ev'). 0 \<le> t \<and> t \<le> m)"
    by blast
next
  assume "(\<forall>a w. \<not> snd (snd (fst (env_step c a w)))) \<and> 0 < n_episodes"
  then show "run_localization_evaluation_episodes c w n_steps n_episodes None = None"
    by (simp add: run_diverges)
qed

theorem evaluation_terminates_witness:
  "(0::int) \<le> 2
   \<and> (\<forall>a w. \<not> snd (snd (fst (env_step (stub (PyFloat 1) False (PyFloat 0.5) (PyFloat 0.75)) a w))))
   \<and> (0::int) < 2
   \<and> (\<exists>scores w' ev'.
        run_localization_evaluation_episodes (stub (PyFloat 1) False (PyFloat 0.5) (PyFloat 0.75))
          0 None 2 (Some 2) = Some (scores, w', ev')
        \<and> (\<forall>(i, t, r, u, v) \<in> set (infos ev'). 0 \<le> t \<and> t \<le> 2))
   \<and> run_localization_evaluation_episodes (stub (PyFloat 1) False (PyFloat 0.5) (PyFloat 0.75))
        0 None 2 None = None"
proof -
  have nd: "\<forall>a w. \<not> snd (snd (fst (env_step (stub (PyFloat 1) False (PyFloat 0.5) (PyFloat 0.75)) a w)))"
    by (simp add: stub_def)
  from nd evaluation_terminates
         [of 2 "stub (PyFloat 1) False (PyFloat 0.5) (PyFloat 0.75)" 0 "[]" "()" 0 None 2]
  show ?thesis by simp
qed

lemma calls_append: "calls (a @ b) = calls a @ calls b"
  by (induction a rule: calls.induct) simp_all

lemma step_loop_recording_aux:
  assumes "step_loop C m W ev obs done test_r t = Some y"
  shows "C = recording c \<Longrightarrow> W = (w, l) \<Longrightarrow>
         (case y of (W', ev', rest) \<Rightarrow>
            \<exists>sfx. ev' = ev @ sfx \<and> snd W' = l @ sfx \<and> calls sfx = sfx)"
  using assms
proof (induction C m W ev obs "done" test_r t y arbitrary: w l
         rule: step_loop.raw_induct[rotated 1, consumes 1])
  case (1 f C m W ev obs d0 test_r t y)
  show ?case
  proof (cases "\<not> (d0 \<or> Some t = m)")
    case False
    with 1(2) have "y = (W, ev, obs, d0, test_r, t)" by auto
    with 1(4) show ?thesis by (auto intro!: exI[of _ "[]"])
  next
    case True
    obtain a w1 where act: "agent_act c obs w = (a, w1)" by (cases "agent_act c obs w")
    obtain obs' r d w2 where st: "env_step c a w1 = ((obs', r, d), w2)"
      by (cases "env_step c a w1") auto
    have act': "agent_act C obs W = (a, (w1, l @ [Act]))"
      using act 1(3) 1(4) by (simp add: recording_def)
    have st': "env_step C a (w1, l @ [Act]) = ((obs', r, d), (w2, (l @ [Act]) @ [Step r d]))"
      using st 1(3) by (simp add: recording_def)
    from 1(2) True act' st'
    have rec: "f C m (w2, (l @ [Act]) @ [Step r d]) (ev @ [Act, Step r d]) obs' d
                 (py_add test_r r) (t + 1) = Some y"
      by simp
    obtain W' ev' rest where y: "y = (W', ev', rest)" by (cases y)
    from 1(1)[OF rec 1(3) refl] y obtain sfx where
      s: "ev' = (ev @ [Act, Step r d]) @ sfx" "snd W' = ((l @ [Act]) @ [Step r d]) @ sfx"
         "calls sfx = sfx"
      by auto
    have "ev' = ev @ ([Act, Step r d] @ sfx)" using s(1) by simp
    moreover have "snd W' = l @ ([Act, Step r d] @ sfx)" using s(2) by simp
    moreover have "calls ([Act, Step r d] @ sfx) = [Act, Step r d] @ sfx"
      using s(3) by simp
    ultimately show ?thesis unfolding y by (simp only: prod.case) blast
  qed
qed

lemma step_loop_recording:
  assumes "step_loop (recording c) m (w, l) ev obs done test_r t
             = Some ((w', l'), ev', obs', done', test_r', t')"
  shows "\<exists>sfx. ev' = ev @ sfx \<and> l' = l @ sfx \<and> calls sfx = sfx"
  using step_loop_recording_aux[OF assms refl refl] by simp

lemma run_episode_recording:
  assumes "run_episode (recording c) m i (w, l) ev = Some (score, (w', l'), ev')"
  shows "\<exists>sfx. ev' = ev @ sfx \<and> l' = l @ calls sfx"
proof -
  obtain obs w0 where r: "env_reset c w = (obs, w0)" by (cases "env_reset c w")
  then have r': "env_reset (recording c) (w, l) = (obs, (w0, l @ [Reset]))"
    by (simp add: recording_def)
  from assms r' obtain w1 l1 ev1 obs1 dn test_r t where
    loop: "step_loop (recording c) m (w0, l @ [Reset]) (ev @ [Reset]) obs False (PyInt 0) 0
             = Some ((w1, l1), ev1, obs1, dn, test_r, t)"
    by (auto simp: run_episode_def split: option.splits)
  have stop: "agent_stop_episode (recording c) (w1, l1)
                = (agent_stop_episode c w1, l1 @ [StopEpisode])"
    by (simp add: recording_def)
  from assms r' loop stop obtain iou max_iou where
    res: "l' = l1 @ [StopEpisode]" "ev' = ev1 @ [StopEpisode, Info i t test_r iou max_iou]"
    by (auto simp: run_episode_def Let_def)
  from step_loop_recording[OF loop] obtain sfx where
    s: "ev1 = (ev @ [Reset]) @ sfx" "l1 = (l @ [Reset]) @ sfx" "calls sfx = sfx"
    by blast
  let ?sfx = "[Reset] @ sfx @ [StopEpisode, Info i t test_r iou max_iou]"
  have "ev' = ev @ ?sfx" using res(2) s(1) by simp
  moreover have "l' = l @ calls ?sfx" using res(1) s(2,3) by (simp add: calls_append)
  ultimately show ?thesis by blast
qed

lemma episodes_recording:
  assumes "episodes (recording c) m is scores (w, l) ev = Some (scores', (w', l'), ev')"
  shows "\<exists>sfx. ev' = ev @ sfx \<and> l' = l @ calls sfx"
  using assms
proof (induction "is" arbitrary: scores w l ev)
  case Nil
  then show ?case by simp
next
  case (Cons i "is")
  from Cons.prems obtain score w1 l1 ev1 where
    ep: "run_episode (recording c) m i (w, l) ev = Some (score, (w1, l1), ev1)" and
    rest: "episodes (recording c) m is (scores @ [score]) (w1, l1) ev1
             = Some (scores', (w', l'), ev')"
    by (auto split: option.splits)
  from run_episode_recording[OF ep] obtain s1 where
    a: "ev1 = ev @ s1" "l1 = l @ calls s1" by blast
  from Cons.IH[OF rest] obtain s2 where
    b: "ev' = ev1 @ s2" "l' = l1 @ calls s2" by blast
  have "ev' = ev @ (s1 @ s2)" using a(1) b(1) by simp
  moreover have "l' = l @ calls (s1 @ s2)" using a(2) b(2) by (simp add: calls_append)
  ultimately show ?case by blast
qed

lemma run_recording:
  assumes "run_localization_evaluation_episodes (recording c) (w, []) n_steps n m
             = Some (scores, (w', l), ev')"
  shows "l = calls ev'"
  using episodes_recording[of c m "py_range n" "[]" w "[]" "[]" scores w' l ev'] assms
  by (simp add: run_localization_evaluation_episodes_def)

lemma count_stop_calls: "count_list (calls ev) StopEpisode = count_list ev StopEpisode"
  by (induction ev rule: calls.induct) simp_all

lemma run_episode_state:
  assumes "run_episode c m i w ev = Some (score, w', ev')"
  shows "\<exists>obs w0 w1 ev1 obs1 dn test_r t.
           env_reset c w = (obs, w0)
           \<and> step_loop c m w0 (ev @ [Reset]) obs False (PyInt 0) 0
               = Some (w1, ev1, obs1, dn, test_r, t)
           \<and> w' = agent_stop_episode c w1
           \<and> (\<exists>iou max_iou. ev' = ev1 @ [StopEpisode, Info i t test_r iou max_iou])"
proof -
  obtain obs w0 where r: "env_reset c w = (obs, w0)" by (cases "env_reset c w")
  from assms r obtain w1 ev1 obs1 dn test_r t where
    loop: "step_loop c m w0 (ev @ [Reset]) obs False (PyInt 0) 0
             = Some (w1, ev1, obs1, dn, test_r, t)"
    by (auto simp: run_episode_def split: option.splits)
  from assms r loop have
    "w' = agent_stop_episode c w1"
    "\<exists>iou max_iou. ev' = ev1 @ [StopEpisode, Info i t test_r iou max_iou]"
    by (auto simp: run_episode_def Let_def)
  with r loop show ?thesis by blast
qed

lemma run_episode_stop_after_loop:
  assumes "run_episode c m i w ev = Some (score, w', ev')"
  shows "\<exists>obs w0 w1 ev1 obs1 dn test_r t rds iou max_iou.
          env_reset c w = (obs, w0)
          \<and> step_loop c m w0 (ev @ [Reset]) obs False (PyInt 0) 0
              = Some (w1, ev1, obs1, dn, test_r, t)
          \<and> w' = agent_stop_episode c w1
          \<and> ev1 = ev @ Reset # loop_events rds
          \<and> ev' = ev1 @ [StopEpisode,
                   Info i (int (length rds)) (foldl py_add (PyInt 0) (map fst rds)) iou max_iou]
          \<and> count_list (Reset # loop_events rds) StopEpisode = 0
          \<and> loop_obeyed m rds"
proof -
  from run_episode_state[OF assms] obtain obs w0 w1 ev1 obs1 dn test_r t iou max_iou where
    r: "env_reset c w = (obs, w0)"
    and loop: "step_loop c m w0 (ev @ [Reset]) obs False (PyInt 0) 0
               = Some (w1, ev1, obs1, dn, test_r, t)"
    and st: "w' = agent_stop_episode c w1"
    and e1: "ev' = ev1 @ [StopEpisode, Info i t test_r iou max_iou]"
    by blast
  from run_episode_shape[OF assms] obtain rds u v where
    e2: "ev' = ev @ episode_events i rds u v" and lo: "loop_obeyed m rds"
    by blast
  from e2 have e2': "ev' = (ev @ Reset # loop_events rds) @
      [StopEpisode, Info i (int (length rds)) (foldl py_add (PyInt 0) (map fst rds)) u v]"
    by (simp add: episode_events_def)
  from e1 e2' have eq: "ev1 @ [StopEpisode, Info i t test_r iou max_iou]
      = (ev @ Reset # loop_events rds) @
        [StopEpisode, Info i (int (length rds)) (foldl py_add (PyInt 0) (map fst rds)) u v]"
    by simp
  have ev1: "ev1 = ev @ Reset # loop_events rds"
    using eq by (subst (asm) append_eq_append_conv) simp_all
  have cnt: "count_list (Reset # loop_events rds) StopEpisode = 0"
    by (simp add: count_stop_loop_events)
  show ?thesis
    using r loop st ev1 e2' cnt lo by blast
qed

lemma recorded_capped_run:
  "run_localization_evaluation_episodes
       (recording (stub (PyFloat 1) False (PyFloat 0.5) (PyFloat 0.75))) (0, []) None 2 (Some 1)
     = Some ([PyFloat 1, PyFloat 1],
             (2, [Reset, Act, Step (PyFloat 1) False, StopEpisode,
                  Reset, Act, Step (PyFloat 1) False, StopEpisode]),
             [Reset, Act, Step (PyFloat 1) False, StopEpisode,
              Info 0 1 (PyFloat 1) (PyFloat 0) (PyFloat 0.75),
              Reset, Act, Step (PyFloat 1) False, StopEpisode,
              Info 1 1 (PyFloat 1) (PyFloat 0) (PyFloat 0.75)])"
  by (simp add: run_localization_evaluation_episodes_def py_range_simps run_episode_def
        step_loop.simps stub_def recording_def float_of_num_def)

text \<open>
  Claim C8. In every episode that ends, with \<^verbatim>\<open>done\<close> or at the cap, the state the episode
  leaves is the result of \<^verbatim>\<open>agent.stop_episode\<close> applied once to the state in which the step
  loop ended; the events are the reset, the steps of the loop, among which there is no
  \<^verbatim>\<open>stop_episode\<close>, then one \<^verbatim>\<open>stop_episode\<close> and the log line. A run of \<open>n_episodes\<close>
  episodes that returns has called \<^verbatim>\<open>stop_episode\<close> \<open>n_episodes\<close> times (no time for a negative
  number, whose range is empty). With an environment and agent that keep their own record
  of the calls they receive, that record is the list of the calls among the events: the
  agent has received \<open>n_episodes\<close> calls of \<^verbatim>\<open>stop_episode\<close>, each after the steps of its
  episode.
\<close>

theorem stop_episode_once_per_episode:
  "(run_episode c max_episode_len i w ev = Some (score, w', ev') \<longrightarrow>
      (\<exists>obs w0 w1 ev1 obs1 dn test_r t rds iou max_iou.
          env_reset c w = (obs, w0)
          \<and> step_loop c max_episode_len w0 (ev @ [Reset]) obs False (PyInt 0) 0
              = Some (w1, ev1, obs1, dn, test_r, t)
          \<and> w' = agent_stop_episode c w1
          \<and> ev1 = ev @ Reset # loop_events rds
          \<and> ev' = ev1 @ [StopEpisode,
                   Info i (int (length rds)) (foldl py_add (PyInt 0) (map fst rds)) iou max_iou]
          \<and> count_list (Reset # loop_events rds) StopEpisode = 0
          \<and> loop_obeyed max_episode_len rds))
   \<and> (run_localization_evaluation_episodes c ws n_steps n_episodes max_episode_len
         = Some (scores, w'', ev'') \<longrightarrow>
       count_list ev'' StopEpisode = nat n_episodes)
   \<and> (run_localization_evaluation_episodes (recording c) (ws, []) n_steps n_episodes
         max_episode_len = Some (scores_r, (w_r, calls_r), ev_r) \<longrightarrow>
       calls_r = calls ev_r \<and> count_list calls_r StopEpisode = nat n_episodes)"
proof (intro conjI impI)
  assume "run_episode c max_episode_len i w ev = Some (score, w', ev')"
  from run_episode_stop_after_loop[OF this]
  show "\<exists>obs w0 w1 ev1 obs1 dn test_r t rds iou max_iou.
          env_reset c w = (obs, w0)
          \<and> step_loop c max_episode_len w0 (ev @ [Reset]) obs False (PyInt 0) 0
              = Some (w1, ev1, obs1, dn, test_r, t)
          \<and> w' = agent_stop_episode c w1
          \<and> ev1 = ev @ Reset # loop_events rds
          \<and> ev' = ev1 @ [StopEpisode,
                   Info i (int (length rds)) (foldl py_add (PyInt 0) (map fst rds)) iou max_iou]
          \<and> count_list (Reset # loop_events rds) StopEpisode = 0
          \<and> loop_obeyed max_episode_len rds" .
next
  assume "run_localization_evaluation_episodes c ws n_steps n_episodes max_episode_len
         = Some (scores, w'', ev'')"
  from run_shape[OF this] obtain eps where
    "ev'' = run_events eps" "map fst eps = py_range n_episodes" by blast
  then have "count_list ev'' StopEpisode = length (py_range n_episodes)"
    by (metis count_stop_run_events length_map)
  then show "count_list ev'' StopEpisode = nat n_episodes"
    by (simp add: py_range_def)
next
  assume run: "run_localization_evaluation_episodes (recording c) (ws, []) n_steps n_episodes
         max_episode_len = Some (scores_r, (w_r, calls_r), ev_r)"
  from run_recording[OF run] show c: "calls_r = calls ev_r" .
  from run_shape[OF run] obtain eps where
    "ev_r = run_events eps" "map fst eps = py_range n_episodes" by blast
  then have "count_list ev_r StopEpisode = length (py_range n_episodes)"
    by (metis count_stop_run_events length_map)
  then show "count_list calls_r StopEpisode = nat n_episodes"
    by (simp add: c count_stop_calls py_range_def)
qed

theorem stop_episode_once_per_episode_witness:
  "run_episode (stub (PyInt 1) True (PyFloat 0.5) (PyFloat 0.75)) None 0 0 []
     = Some (PyFloat 1, 1,
             [Reset, Act, Step (PyInt 1) True, StopEpisode,
              Info 0 1 (PyInt 1) (PyFloat 0.5) (PyFloat 0.75)])
   \<and> (\<exists>obs w0 w1 ev1 obs1 dn test_r t rds iou max_iou.
          env_reset (stub (PyInt 1) True (PyFloat 0.5) (PyFloat 0.75)) 0 = (obs, w0)
          \<and> step_loop (stub (PyInt 1) True (PyFloat 0.5) (PyFloat 0.75)) None w0 ([] @ [Reset])
                obs False (PyInt 0) 0
              = Some (w1, ev1, obs1, dn, test_r, t)
          \<and> (1::nat) = agent_stop_episode (stub (PyInt 1) True (PyFloat 0.5) (PyFloat 0.75)) w1
          \<and> ev1 = [] @ Reset # loop_events rds
          \<and> [Reset, Act, Step (PyInt 1) True, StopEpisode,
              Info 0 1 (PyInt 1) (PyFloat 0.5) (PyFloat 0.75)]
             = ev1 @ [StopEpisode,
                   Info 0 (int (length rds)) (foldl py_add (PyInt 0) (map fst rds)) iou max_iou]
          \<and> count_list (Reset # loop_events rds) StopEpisode = 0
          \<and> loop_obeyed None rds)
   \<and> run_localization_evaluation_episodes (stub (PyFloat 1) False (PyFloat 0.5) (PyFloat 0.75))
       0 None 2 (Some 2)
     = Some ([PyFloat 2, PyFloat 2], 2,
             [Reset, Act, Step (PyFloat 1) False, Act, Step (PyFloat 1) False, StopEpisode,
              Info 0 2 (PyFloat 2) (PyFloat 0) (PyFloat 0.75),
              Reset, Act, Step (PyFloat 1) False, Act, Step (PyFloat 1) False, StopEpisode,
              Info 1 2 (PyFloat 2) (PyFloat 0) (PyFloat 0.75)])
   \<and> count_list
         [Reset, Act, Step (PyFloat 1) False, Act, Step (PyFloat 1) False, StopEpisode,
          Info 0 2 (PyFloat 2) (PyFloat 0) (PyFloat 0.75),
          Reset, Act, Step (PyFloat 1) False, Act, Step (PyFloat 1) False, StopEpisode,
          Info 1 2 (PyFloat 2) (PyFloat 0) (PyFloat 0.75)] StopEpisode = nat 2
   \<and> run_localization_evaluation_episodes
       (recording (stub (PyFloat 1) False (PyFloat 0.5) (PyFloat 0.75))) (0, []) None 2 (Some 1)
     = Some ([PyFloat 1, PyFloat 1],
             (2, [Reset, Act, Step (PyFloat 1) False, StopEpisode,
                  Reset, Act, Step (PyFloat 1) False, StopEpisode]),
             [Reset, Act, Step (PyFloat 1) False, StopEpisode,
              Info 0 1 (PyFloat 1) (PyFloat 0) (PyFloat 0.75),
              Reset, Act, Step (PyFloat 1) False, StopEpisode,
              Info 1 1 (PyFloat 1) (PyFloat 0) (PyFloat 0.75)])
   \<and> [Reset, Act, Step (PyFloat 1) False, StopEpisode,
       Reset, Act, Step (PyFloat 1) False, StopEpisode]
      = calls [Reset, Act, Step (PyFloat 1) False, StopEpisode,
              Info 0 1 (PyFloat 1) (PyFloat 0) (PyFloat 0.75),
              Reset, Act, Step (PyFloat 1) False, StopEpisode,
              Info 1 1 (PyFloat 1) (PyFloat 0) (PyFloat 0.75)]
   \<and> count_list [Reset, Act, Step (PyFloat 1) False, StopEpisode,
       Reset, Act, Step (PyFloat 1) False, StopEpisode] StopEpisode = nat 2"
proof -
  note a = stop_episode_once_per_episode
      [where c = "stub (PyInt 1) True (PyFloat 0.5) (PyFloat 0.75)" and max_episode_len = None
         and i = 0 and w = 0 and ev = "[]" and score = "PyFloat 1" and w' = 1
         and ev' = "[Reset, Act, Step (PyInt 1) True, StopEpisode,
              Info 0 1 (PyInt 1) (PyFloat 0.5) (PyFloat 0.75)]", THEN conjunct1, rule_format,
       OF done_episode]
  note b = stop_episode_once_per_episode
      [where c = "stub (PyFloat 1) False (PyFloat 0.5) (PyFloat 0.75)"
         and max_episode_len = "Some 2" and ws = 0 and n_steps = None and n_episodes = 2
         and scores = "[PyFloat 2, PyFloat 2]" and w'' = 2, THEN conjunct2, THEN conjunct1,
       rule_format, OF capped_run]
  note c = stop_episode_once_per_episode
      [where c = "stub (PyFloat 1) False (PyFloat 0.5) (PyFloat 0.75)"
         and max_episode_len = "Some 1" and ws = 0 and n_steps = None and n_episodes = 2,
       THEN conjunct2, THEN conjunct2, rule_format, OF recorded_capped_run]
  show ?thesis
    apply (intro conjI)
           apply (rule done_episode)
          apply (rule a)
         apply (rule capped_run)
        apply (rule b)
       apply (rule recorded_capped_run)
      apply (rule c [THEN conjunct1])
     apply (rule c [THEN conjunct2])
    done
qed

lemma done_run:
  "run_localization_evaluation_episodes (stub (PyInt 1) True (PyFloat 0.5) (PyFloat 0.75))
       0 None 1 None
     = Some ([PyFloat 1], 1,
             [Reset, Act, Step (PyInt 1) True, StopEpisode,
              Info 0 1 (PyInt 1) (PyFloat 0.5) (PyFloat 0.75)])"
  by (simp add: run_localization_evaluation_episodes_def py_range_simps run_episode_def
        step_loop.simps stub_def float_of_num_def)

lemma is_plain_float_score_of: "is_plain_float (score_of rds)"
  by (simp add: score_of_def float_of_num_def)

text \<open>
  Claim C7, as stated, fails for the return in the log line. With a reward that is the
  integer 1, one episode of one step logs the return as the integer 1: line 200 formats
  \<^verbatim>\<open>test_r\<close> itself, while line 199 appends \<^verbatim>\<open>float(test_r)\<close> to the scores.
\<close>

theorem logged_return_not_converted:
  "run_localization_evaluation_episodes (stub (PyInt 1) True (PyFloat 0.5) (PyFloat 0.75))
       0 None 1 None
     = Some ([PyFloat 1], 1,
             [Reset, Act, Step (PyInt 1) True, StopEpisode,
              Info 0 1 (PyInt 1) (PyFloat 0.5) (PyFloat 0.75)])
   \<and> \<not> is_plain_float (PyInt 1)"
  using done_run by simp

text \<open>
  Claim C7, amended. For every run that returns: the \<open>iou\<close> and the \<open>max_iou\<close> of every log
  line are plain floats; every returned score is a plain float, and it is \<^verbatim>\<open>float\<close> of the
  return in the log line of its episode; the return in the log line is the sum of the
  rewards as the loop accumulated it, without conversion.
\<close>

theorem reported_values_float:
  assumes "run_localization_evaluation_episodes c w n_steps n_episodes max_episode_len
             = Some (scores, w', ev')"
  shows "(\<forall>(i, t, r, iou, max_iou) \<in> set (infos ev').
            is_plain_float iou \<and> is_plain_float max_iou)
         \<and> (\<forall>s \<in> set scores. is_plain_float s)
         \<and> scores = map (\<lambda>(i, t, r, iou, max_iou). float_of_num r) (infos ev')
         \<and> (\<exists>eps. ev' = run_events eps
                \<and> map (\<lambda>(i, t, r, iou, max_iou). r) (infos ev')
                    = map (\<lambda>(i, rds, iou, max_iou). foldl py_add (PyInt 0) (map fst rds)) eps)"
proof -
  from run_shape[OF assms] obtain eps where
    ev: "ev' = run_events eps" and sc: "scores = map (\<lambda>(i, rds, u, v). score_of rds) eps"
    and ok: "\<forall>ep \<in> set eps. episode_reported max_episode_len ep"
    by blast
  have a: "\<forall>(i, t, r, iou, max_iou) \<in> set (infos ev').
            is_plain_float iou \<and> is_plain_float max_iou"
    using ok by (auto simp: ev infos_run_events episode_reported_def)
  have b: "\<forall>s \<in> set scores. is_plain_float s"
    by (auto simp: sc is_plain_float_score_of)
  have c: "scores = map (\<lambda>(i, t, r, iou, max_iou). float_of_num r) (infos ev')"
    by (simp add: sc ev infos_run_events score_of_def case_prod_beta o_def)
  have d: "map (\<lambda>(i, t, r, iou, max_iou). r) (infos ev')
             = map (\<lambda>(i, rds, iou, max_iou). foldl py_add (PyInt 0) (map fst rds)) eps"
    by (simp add: ev infos_run_events case_prod_beta o_def)
  from a b c d ev show ?thesis by blast
qed

theorem reported_values_float_witness:
  "run_localization_evaluation_episodes (stub (PyInt 1) True (PyFloat 0.5) (PyFloat 0.75))
       0 None 1 None
     = Some ([PyFloat 1], 1,
             [Reset, Act, Step (PyInt 1) True, StopEpisode,
              Info 0 1 (PyInt 1) (PyFloat 0.5) (PyFloat 0.75)])
   \<and> is_plain_float (PyFloat 0.5) \<and> is_plain_float (PyFloat 0.75)
   \<and> is_plain_float (PyFloat 1)
   \<and> [PyFloat 1] = map (\<lambda>(i, t, r, iou, max_iou). float_of_num r)
         (infos [Reset, Act, Step (PyInt 1) True, StopEpisode,
              Info 0 1 (PyInt 1) (PyFloat 0.5) (PyFloat 0.75)])"
proof -
  note r = reported_values_float [OF done_run]
  from r have "\<forall>(i, t, r, iou, max_iou) \<in> set (infos
             [Reset, Act, Step (PyInt 1) True, StopEpisode,
              Info 0 1 (PyInt 1) (PyFloat 0.5) (PyFloat 0.75)]).
          is_plain_float iou \<and> is_plain_float max_iou"
    by (rule conjunct1)
  then have a: "is_plain_float (PyFloat 0.5) \<and> is_plain_float (PyFloat 0.75)"
    by simp
  from r have "\<forall>s \<in> set [PyFloat 1]. is_plain_float s"
    by blast
  then have b: "is_plain_float (PyFloat 1)" by simp
  from r have c: "[PyFloat 1] = map (\<lambda>(i, t, r, iou, max_iou). float_of_num r)
         (infos [Reset, Act, Step (PyInt 1) True, StopEpisode,
              Info 0 1 (PyInt 1) (PyFloat 0.5) (PyFloat 0.75)])"
    by blast
  from done_run a b c show ?thesis by blast
qed

lemma one_step_episode:
  assumes stub: "\<forall>a w. snd (fst (env_step c a w)) = (R, True)" and cap: "m \<noteq> Some 0"
  shows "\<exists>w' u v. run_episode c m i w ev
           = Some (float_of_num R, w', ev @ episode_events i [(R, True)] u v)"
proof -
  obtain obs w0 where r: "env_reset c w = (obs, w0)" by (cases "env_reset c w")
  obtain a w1 where act: "agent_act c obs w0 = (a, w1)" by (cases "agent_act c obs w0")
  obtain obs' r' d w2 where st: "env_step c a w1 = ((obs', r', d), w2)"
    by (cases "env_step c a w1") auto
  from stub st have rd: "r' = R" "d = True" by (metis fst_conv snd_conv)+
  have second: "step_loop c m w2 ((ev @ [Reset]) @ [Act, Step R True]) obs' True
                  (py_add (PyInt 0) R) (0 + 1)
                = Some (w2, (ev @ [Reset]) @ [Act, Step R True], obs', True,
                        py_add (PyInt 0) R, 0 + 1)"
    by (subst step_loop.simps) simp
  have first: "step_loop c m w0 (ev @ [Reset]) obs False (PyInt 0) 0
                = Some (w2, (ev @ [Reset]) @ [Act, Step R True], obs', True,
                        py_add (PyInt 0) R, 0 + 1)"
    using cap act st rd second by (subst step_loop.simps) auto
  show ?thesis
    using r first
    by (simp add: run_episode_def Let_def py_add_zero episode_events_def loop_events_def)
qed

lemma one_step_episodes:
  assumes stub: "\<forall>a w. snd (fst (env_step c a w)) = (R, True)" and cap: "m \<noteq> Some 0"
  shows "\<exists>w' ev'. episodes c m is scores w ev
           = Some (scores @ replicate (length is) (float_of_num R), w', ev')
         \<and> map (\<lambda>(i, t, r, u, v). (i, t, r)) (infos ev')
             = map (\<lambda>(i, t, r, u, v). (i, t, r)) (infos ev) @ map (\<lambda>i. (i, 1, R)) is"
proof (induction "is" arbitrary: scores w ev)
  case Nil
  show ?case by simp
next
  case (Cons i "is")
  from one_step_episode[OF stub cap, of i w ev] obtain w1 u v where
    ep: "run_episode c m i w ev
           = Some (float_of_num R, w1, ev @ episode_events i [(R, True)] u v)"
    by blast
  from Cons[of "scores @ [float_of_num R]" w1 "ev @ episode_events i [(R, True)] u v"]
  obtain w' ev' where
    rest: "episodes c m is (scores @ [float_of_num R]) w1 (ev @ episode_events i [(R, True)] u v)
             = Some ((scores @ [float_of_num R]) @ replicate (length is) (float_of_num R), w', ev')"
    and inf: "map (\<lambda>(i, t, r, u, v). (i, t, r)) (infos ev')
             = map (\<lambda>(i, t, r, u, v). (i, t, r)) (infos (ev @ episode_events i [(R, True)] u v))
               @ map (\<lambda>i. (i, 1, R)) is"
    by blast
  have "episodes c m (i # is) scores w ev
          = Some (scores @ replicate (length (i # is)) (float_of_num R), w', ev')"
    using ep rest by (simp add: replicate_app_Cons_same)
  moreover have "map (\<lambda>(i, t, r, u, v). (i, t, r)) (infos ev')
             = map (\<lambda>(i, t, r, u, v). (i, t, r)) (infos ev) @ map (\<lambda>i. (i, 1, R)) (i # is)"
    using inf by (simp add: infos_append infos_episode_events py_add_zero)
  ultimately show ?case by blast
qed

lemma five_done_run:
  "run_localization_evaluation_episodes (stub (PyFloat 1.5) True (PyFloat 0.5) (PyFloat 0.75))
       0 None 5 None
     = Some ([PyFloat 1.5, PyFloat 1.5, PyFloat 1.5, PyFloat 1.5, PyFloat 1.5], 5,
             [Reset, Act, Step (PyFloat 1.5) True, StopEpisode,
              Info 0 1 (PyFloat 1.5) (PyFloat 0.5) (PyFloat 0.75),
              Reset, Act, Step (PyFloat 1.5) True, StopEpisode,
              Info 1 1 (PyFloat 1.5) (PyFloat 0.5) (PyFloat 0.75),
              Reset, Act, Step (PyFloat 1.5) True, StopEpisode,
              Info 2 1 (PyFloat 1.5) (PyFloat 0.5) (PyFloat 0.75),
              Reset, Act, Step (PyFloat 1.5) True, StopEpisode,
              Info 3 1 (PyFloat 1.5) (PyFloat 0.5) (PyFloat 0.75),
              Reset, Act, Step (PyFloat 1.5) True, StopEpisode,
              Info 4 1 (PyFloat 1.5) (PyFloat 0.5) (PyFloat 0.75)])"
  by (simp add: run_localization_evaluation_episodes_def py_range_simps run_episode_def
        step_loop.simps stub_def float_of_num_def)

text \<open>
  Claim C6. With an environment whose every step returns the reward \<open>R\<close> and \<^verbatim>\<open>done = True\<close>,
  and a cap that is not 0 (none, by default), a run of 5 episodes returns 5 scores, each
  \<^verbatim>\<open>float(R)\<close>, and logs 5 lines with the indices 0 to 4, each with length 1 and return \<open>R\<close>.
  In general a run that returns has \<open>n_episodes\<close> scores, in the order of the episodes, and
  one log line per episode index of \<^verbatim>\<open>range(n_episodes)\<close>, each score being the float of the
  return in the line of its episode.
\<close>

theorem stub_run_records:
  "((\<forall>a w. snd (fst (env_step c a w)) = (R, True)) \<and> max_episode_len \<noteq> Some 0 \<longrightarrow>
      (\<exists>w' ev'.
          run_localization_evaluation_episodes c w n_steps 5 max_episode_len
            = Some (replicate 5 (float_of_num R), w', ev')
          \<and> map (\<lambda>(i, t, r, iou, max_iou). (i, t, r)) (infos ev')
              = [(0, 1, R), (1, 1, R), (2, 1, R), (3, 1, R), (4, 1, R)]))
   \<and> (run_localization_evaluation_episodes c w n_steps n_episodes max_episode_len
         = Some (scores, w'', ev'') \<longrightarrow>
       length scores = nat n_episodes
       \<and> map fst (infos ev'') = py_range n_episodes
       \<and> scores = map (\<lambda>(i, t, r, iou, max_iou). float_of_num r) (infos ev''))"
proof (intro conjI impI)
  assume "(\<forall>a w. snd (fst (env_step c a w)) = (R, True)) \<and> max_episode_len \<noteq> Some 0"
  then have stub: "\<forall>a w. snd (fst (env_step c a w)) = (R, True)"
    and cap: "max_episode_len \<noteq> Some 0" by simp_all
  from one_step_episodes[OF stub cap, of "py_range 5" "[]" w "[]"]
  obtain w' ev' where
    e: "episodes c max_episode_len (py_range 5) [] w []
          = Some ([] @ replicate (length (py_range 5)) (float_of_num R), w', ev')"
    and i: "map (\<lambda>(i, t, r, u, v). (i, t, r)) (infos ev')
             = map (\<lambda>(i, t, r, u, v). (i, t, r)) (infos []) @ map (\<lambda>i. (i, 1, R)) (py_range 5)"
    by blast
  have len: "length (py_range 5) = 5" by (simp add: py_range_def)
  have a: "run_localization_evaluation_episodes c w n_steps 5 max_episode_len
            = Some (replicate 5 (float_of_num R), w', ev')"
    unfolding run_localization_evaluation_episodes_def using e len by simp
  have b: "map (\<lambda>(i, t, r, iou, max_iou). (i, t, r)) (infos ev')
              = [(0, 1, R), (1, 1, R), (2, 1, R), (3, 1, R), (4, 1, R)]"
    using i by (simp add: py_range_simps)
  show "\<exists>w' ev'.
          run_localization_evaluation_episodes c w n_steps 5 max_episode_len
            = Some (replicate 5 (float_of_num R), w', ev')
          \<and> map (\<lambda>(i, t, r, iou, max_iou). (i, t, r)) (infos ev')
              = [(0, 1, R), (1, 1, R), (2, 1, R), (3, 1, R), (4, 1, R)]"
    by (rule exI[of _ w'], rule exI[of _ ev'], rule conjI, rule a, rule b)
next
  assume run: "run_localization_evaluation_episodes c w n_steps n_episodes max_episode_len
         = Some (scores, w'', ev'')"
  from run_shape[OF run] obtain eps where
    ev: "ev'' = run_events eps" and ix: "map fst eps = py_range n_episodes"
    and sc: "scores = map (\<lambda>(i, rds, u, v). score_of rds) eps"
    by blast
  from ix have len: "length eps = nat n_episodes"
    by (metis length_map py_range_def length_upt diff_zero)
  show "length scores = nat n_episodes" using sc len by simp
  show "map fst (infos ev'') = py_range n_episodes"
    using ix by (simp add: ev infos_run_events case_prod_beta o_def)
  show "scores = map (\<lambda>(i, t, r, iou, max_iou). float_of_num r) (infos ev'')"
    by (simp add: sc ev infos_run_events score_of_def case_prod_beta o_def)
qed

theorem stub_run_records_witness:
  "(\<forall>a w. snd (fst (env_step (stub (PyFloat 1.5) True (PyFloat 0.5) (PyFloat 0.75)) a w))
            = (PyFloat 1.5, True))
   \<and> (None :: int option) \<noteq> Some 0
   \<and> run_localization_evaluation_episodes (stub (PyFloat 1.5) True (PyFloat 0.5) (PyFloat 0.75))
       0 None 5 None
     = Some (replicate 5 (float_of_num (PyFloat 1.5)), 5,
             [Reset, Act, Step (PyFloat 1.5) True, StopEpisode,
              Info 0 1 (PyFloat 1.5) (PyFloat 0.5) (PyFloat 0.75),
              Reset, Act, Step (PyFloat 1.5) True, StopEpisode,
              Info 1 1 (PyFloat 1.5) (PyFloat 0.5) (PyFloat 0.75),
              Reset, Act, Step (PyFloat 1.5) True, StopEpisode,
              Info 2 1 (PyFloat 1.5) (PyFloat 0.5) (PyFloat 0.75),
              Reset, Act, Step (PyFloat 1.5) True, StopEpisode,
              Info 3 1 (PyFloat 1.5) (PyFloat 0.5) (PyFloat 0.75),
              Reset, Act, Step (PyFloat 1.5) True, StopEpisode,
              Info 4 1 (PyFloat 1.5) (PyFloat 0.5) (PyFloat 0.75)])
   \<and> length (replicate 5 (float_of_num (PyFloat 1.5))) = nat 5"
proof -
  have st: "\<forall>a w. snd (fst (env_step (stub (PyFloat 1.5) True (PyFloat 0.5) (PyFloat 0.75)) a w))
            = (PyFloat 1.5, True)"
    by (simp add: stub_def)
  have run: "run_localization_evaluation_episodes
        (stub (PyFloat 1.5) True (PyFloat 0.5) (PyFloat 0.75)) 0 None 5 None
     = Some (replicate 5 (float_of_num (PyFloat 1.5)), 5,
             [Reset, Act, Step (PyFloat 1.5) True, StopEpisode,
              Info 0 1 (PyFloat 1.5) (PyFloat 0.5) (PyFloat 0.75),
              Reset, Act, Step (PyFloat 1.5) True, StopEpisode,
              Info 1 1 (PyFloat 1.5) (PyFloat 0.5) (PyFloat 0.75),
              Reset, Act, Step (PyFloat 1.5) True, StopEpisode,
              Info 2 1 (PyFloat 1.5) (PyFloat 0.5) (PyFloat 0.75),
              Reset, Act, Step (PyFloat 1.5) True, StopEpisode,
              Info 3 1 (PyFloat 1.5) (PyFloat 0.5) (PyFloat 0.75),
              Reset, Act, Step (PyFloat 1.5) True, StopEpisode,
              Info 4 1 (PyFloat 1.5) (PyFloat 0.5) (PyFloat 0.75)])"
    using five_done_run by (simp add: float_of_num_def numeral_eq_Suc)
  from stub_run_records
         [where c = "stub (PyFloat 1.5) True (PyFloat 0.5) (PyFloat 0.75)" and R = "PyFloat 1.5"
            and max_episode_len = None and w = 0 and n_steps = None and n_episodes = 5
            and scores = "replicate 5 (float_of_num (PyFloat 1.5))" and w'' = 5]
       st run
  show ?thesis by blast
qed

end
